theory Spec2Isabelle
  imports Main
begin

section \<open>Strings\<close>

text \<open>
  A JavaScript string is a sequence of code units. It is modelled as a \<open>string\<close>, a list of
  \<open>char\<close>, so the model covers the strings whose code units lie in the 8-bit range;
  \<open>length\<close> counts code units as the \<open>length\<close> property does.
\<close>

definition isWhiteSpace :: "char \<Rightarrow> bool" where
  \<comment> \<open>the characters that \<open>trim()\<close> removes and that \<open>\\s\<close> matches: tab, line feed, vertical
      tab, form feed, carriage return, space, no-break space\<close>
  "isWhiteSpace c \<longleftrightarrow>
     c \<in> {CHR 0x09, CHR 0x0A, CHR 0x0B, CHR 0x0C, CHR 0x0D, CHR 0x20, CHR 0xA0}"

definition trim :: "string \<Rightarrow> string" where
  "trim s = rev (dropWhile isWhiteSpace (rev (dropWhile isWhiteSpace s)))"

text \<open>The two halves of \<open>trim\<close>.\<close>

definition trimStart :: "string \<Rightarrow> string" where
  "trimStart s = dropWhile isWhiteSpace s"

definition trimEnd :: "string \<Rightarrow> string" where
  "trimEnd s = rev (dropWhile isWhiteSpace (rev s))"

definition truthy :: "string option \<Rightarrow> bool" where
  \<comment> \<open>a value that is \<open>null\<close> or a string, used as a condition: \<open>null\<close> and \<open>''\<close> are falsy\<close>
  "truthy v \<longleftrightarrow> (case v of None \<Rightarrow> False | Some s \<Rightarrow> s \<noteq> [])"

fun splitChar :: "char \<Rightarrow> string \<Rightarrow> string list" where
  \<comment> \<open>\<open>s.split(d)\<close> for a one-character separator \<open>d\<close>\<close>
  "splitChar d [] = [[]]"
| "splitChar d (c # cs) =
     (if c = d then [] # splitChar d cs
      else (case splitChar d cs of [] \<Rightarrow> [[c]] | x # xs \<Rightarrow> (c # x) # xs))"

fun splitRuns :: "(char \<Rightarrow> bool) \<Rightarrow> string \<Rightarrow> string list" where
  \<comment> \<open>\<open>s.split(/[...]+/)\<close>: the separators are the maximal runs of characters of the class\<close>
  "splitRuns P [] = [[]]"
| "splitRuns P (c # cs) =
     (if P c then
        (case cs of
           [] \<Rightarrow> [[], []]
         | d # _ \<Rightarrow> if P d then splitRuns P cs else [] # splitRuns P cs)
      else (case splitRuns P cs of [] \<Rightarrow> [[c]] | x # xs \<Rightarrow> (c # x) # xs))"

fun stripFrom :: "bool \<Rightarrow> string \<Rightarrow> string" where
  \<comment> \<open>the scan of \<open>replace(/<[^>]*>/g, '')\<close>; the flag says that the scan is inside a match.
      A \<open><\<close> opens a match only when a \<open>>\<close> follows somewhere; the match ends at the first one\<close>
  "stripFrom inTag [] = []"
| "stripFrom True (c # cs) = (if c = CHR ''>'' then stripFrom False cs else stripFrom True cs)"
| "stripFrom False (c # cs) =
     (if c = CHR ''<'' \<and> CHR ''>'' \<in> set cs then stripFrom True cs else c # stripFrom False cs)"

definition removeTags :: "string \<Rightarrow> string" where
  "removeTags s = stripFrom False s"

definition endsWith :: "string \<Rightarrow> string \<Rightarrow> bool" where
  "endsWith s e \<longleftrightarrow> take (length e) (rev s) = rev e"

definition toLowerChar :: "char \<Rightarrow> char" where
  \<comment> \<open>\<open>toLowerCase\<close> on one code unit of the 8-bit range: A-Z, and the accented capitals
      0xC0-0xDE without the multiplication sign 0xD7, move up by 0x20\<close>
  "toLowerChar c =
     (let n = (of_char c :: nat)
      in if (65 \<le> n \<and> n \<le> 90) \<or> (192 \<le> n \<and> n \<le> 222 \<and> n \<noteq> 215) then char_of (n + 32) else c)"

definition toLowerCase :: "string \<Rightarrow> string" where
  "toLowerCase s = map toLowerChar s"

definition digitChar :: "nat \<Rightarrow> char" where
  "digitChar d = char_of (48 + d)"

fun showNat :: "nat \<Rightarrow> string" where
  \<comment> \<open>the decimal rendering of a non-negative integer, as string concatenation produces it\<close>
  "showNat n = (if n < 10 then [digitChar n] else showNat (n div 10) @ [digitChar (n mod 10)])"

declare showNat.simps [simp del]

section \<open>The note store (class NoteManager)\<close>

text \<open>
  Timestamps are the instants read from the clock, in milliseconds; \<open>toISOString\<close> renders
  an instant and is not modelled.
\<close>

record Note =
  note_id :: string
  title :: string
  content :: string
  createdAt :: nat
  updatedAt :: nat

text \<open>
  The value kept under the key \<open>takenote-notes\<close>: no item, a text that \<open>JSON.parse\<close>
  rejects, or the serialisation of an array of notes. \<open>JSON.stringify\<close> followed by
  \<open>JSON.parse\<close> gives the array back, so the array itself stands for its serialisation.
  The store writes nothing else under the key; a valid JSON text of another shape, which only
  another program could have put there, is not covered. \<open>getItem\<close> and \<open>setItem\<close> throw
  when the storage refuses the access.
\<close>

datatype savedNotes = NoItem | Malformed | NotesArray "Note list"

record localStorage =
  readable :: bool
  writable :: bool
  notesItem :: savedNotes
  activeItem :: "string option"

record NoteManager =
  "notes" :: "Note list"
  activeNoteId :: "string option"
  storage :: localStorage

text \<open>
  What one call of \<open>createNote\<close> reads from its environment: \<open>Date.now()\<close> and the digits
  kept of \<open>Math.random()\<close> for the id, then the clock twice more, once for each timestamp.
\<close>

record createEnv =
  nowMs :: nat
  randomPart :: string
  createdNow :: nat
  updatedNow :: nat

definition generateId :: "createEnv \<Rightarrow> string" where
  "generateId e = ''note_'' @ showNat (nowMs e) @ ''_'' @ randomPart e"

definition saveNotesToStorage :: "NoteManager \<Rightarrow> NoteManager" where
  \<comment> \<open>an exception of \<open>setItem\<close> is caught and logged: nothing is written\<close>
  "saveNotesToStorage m =
     (if writable (storage m)
      then m\<lparr>storage := (storage m)\<lparr>
             notesItem := NotesArray (notes m),
             activeItem := Some (case activeNoteId m of None \<Rightarrow> [] | Some a \<Rightarrow> a)\<rparr>\<rparr>
      else m)"

definition createNote ::
  "createEnv \<Rightarrow> string option \<Rightarrow> string option \<Rightarrow> NoteManager \<Rightarrow> NoteManager \<times> Note" where
  \<comment> \<open>an argument that is left out (\<open>None\<close>) takes its default\<close>
  "createNote e titleArg contentArg m =
     (let n = \<lparr>note_id = generateId e,
               title = (case titleArg of None \<Rightarrow> ''Untitled Note'' | Some t \<Rightarrow> t),
               content = (case contentArg of None \<Rightarrow> [] | Some c \<Rightarrow> c),
               createdAt = createdNow e,
               updatedAt = updatedNow e\<rparr>
      in (saveNotesToStorage (m\<lparr>notes := n # notes m, activeNoteId := Some (note_id n)\<rparr>), n))"

definition getNoteById :: "string \<Rightarrow> NoteManager \<Rightarrow> Note option" where
  "getNoteById i m = find (\<lambda>n. note_id n = i) (notes m)"

definition getActiveNote :: "NoteManager \<Rightarrow> Note option" where
  "getActiveNote m =
     (case activeNoteId m of
        None \<Rightarrow> None
      | Some a \<Rightarrow> if a = [] then None else getNoteById a m)"

fun findIndex :: "('a \<Rightarrow> bool) \<Rightarrow> 'a list \<Rightarrow> nat option" where
  \<comment> \<open>\<open>None\<close> stands for the result -1\<close>
  "findIndex P [] = None"
| "findIndex P (x # xs) = (if P x then Some 0 else map_option Suc (findIndex P xs))"

text \<open>
  The fields an update carries. \<open>updateNote\<close> spreads every field of its argument over the
  note, the id and the time of creation included, and sets the time of update after that, so
  a time of update in the argument has no effect. A field that a note does not have is not
  modelled.
\<close>

record updates =
  newId :: "string option"
  newTitle :: "string option"
  newContent :: "string option"
  newCreatedAt :: "nat option"

definition merge :: "Note \<Rightarrow> updates \<Rightarrow> nat \<Rightarrow> Note" where
  \<comment> \<open>\<open>{...note, ...updates, updatedAt: now}\<close>\<close>
  "merge n u now =
     n\<lparr>note_id := (case newId u of None \<Rightarrow> note_id n | Some x \<Rightarrow> x),
       title := (case newTitle u of None \<Rightarrow> title n | Some t \<Rightarrow> t),
       content := (case newContent u of None \<Rightarrow> content n | Some c \<Rightarrow> c),
       createdAt := (case newCreatedAt u of None \<Rightarrow> createdAt n | Some t \<Rightarrow> t),
       updatedAt := now\<rparr>"

definition updateNote :: "nat \<Rightarrow> string \<Rightarrow> updates \<Rightarrow> NoteManager \<Rightarrow> NoteManager \<times> Note option" where
  "updateNote now i u m =
     (case findIndex (\<lambda>n. note_id n = i) (notes m) of
        Some k \<Rightarrow>
          (let n' = merge (notes m ! k) u now
           in (saveNotesToStorage (m\<lparr>notes := (notes m)[k := n']\<rparr>), Some n'))
      | None \<Rightarrow> (m, None))"

definition updateNoteTitle :: "nat \<Rightarrow> string \<Rightarrow> string \<Rightarrow> NoteManager \<Rightarrow> NoteManager \<times> Note option" where
  "updateNoteTitle now i t m =
     (case findIndex (\<lambda>n. note_id n = i) (notes m) of
        Some k \<Rightarrow>
          (let n' = (notes m ! k)\<lparr>title := (if trim t \<noteq> [] then trim t else ''Untitled Note''),
                                  updatedAt := now\<rparr>
           in (saveNotesToStorage (m\<lparr>notes := (notes m)[k := n']\<rparr>), Some n'))
      | None \<Rightarrow> (m, None))"

definition extractFirstLineAsTitle :: "string \<Rightarrow> string" where
  "extractFirstLineAsTitle c =
     (if c = [] then []
      else
        (let plainText = trim (removeTags c)
         in if plainText = [] then []
            else
              (let firstLine = trim (case splitChar CHR 0x0A plainText of [] \<Rightarrow> [] | l # _ \<Rightarrow> l)
               in if firstLine \<noteq> [] then firstLine else ''Untitled Note'')))"

definition updateNoteTitleFromContent :: "nat \<Rightarrow> string \<Rightarrow> string \<Rightarrow> NoteManager \<Rightarrow> NoteManager" where
  \<comment> \<open>the source returns nothing\<close>
  "updateNoteTitleFromContent now i c m =
     (let firstLine = extractFirstLineAsTitle c
      in if firstLine \<noteq> []
         then fst (updateNote now i
                \<lparr>newId = None,
                 newTitle = Some (take 50 firstLine @ (if length firstLine > 50 then ''...'' else [])),
                 newContent = Some c,
                 newCreatedAt = None\<rparr> m)
         else fst (updateNote now i
                \<lparr>newId = None, newTitle = None, newContent = Some c, newCreatedAt = None\<rparr> m))"

definition splice1 :: "nat \<Rightarrow> 'a list \<Rightarrow> 'a list" where
  \<comment> \<open>\<open>splice(k, 1)\<close>\<close>
  "splice1 k xs = take k xs @ drop (Suc k) xs"

definition deleteNote :: "string \<Rightarrow> NoteManager \<Rightarrow> NoteManager \<times> bool" where
  "deleteNote i m =
     (case findIndex (\<lambda>n. note_id n = i) (notes m) of
        Some k \<Rightarrow>
          (let ns = splice1 k (notes m);
               a = (if activeNoteId m = Some i
                    then (case ns of [] \<Rightarrow> None | n # _ \<Rightarrow> Some (note_id n))
                    else activeNoteId m)
           in (saveNotesToStorage (m\<lparr>notes := ns, activeNoteId := a\<rparr>), True))
      | None \<Rightarrow> (m, False))"

definition setActiveNote :: "string \<Rightarrow> NoteManager \<Rightarrow> NoteManager \<times> Note option" where
  "setActiveNote i m =
     (case getNoteById i m of
        Some n \<Rightarrow> (m\<lparr>activeNoteId := Some i\<rparr>, Some n)
      | None \<Rightarrow> (m, None))"

definition welcomeContent :: string where
  "welcomeContent = ''<p>Welcome to takenote! This is your first note.</p><p>You can:</p><ul><li>Format text with the toolbar</li><li>Create new notes</li><li>Upload and download files</li><li>And much more!</li></ul>''"

definition loadNotesFromStorage :: "createEnv \<Rightarrow> NoteManager \<Rightarrow> NoteManager" where
  \<comment> \<open>the \<open>catch\<close> branch is reached from \<open>getItem\<close> or from \<open>JSON.parse\<close>, before any
      assignment\<close>
  "loadNotesFromStorage e m =
     (if \<not> readable (storage m) \<or> notesItem (storage m) = Malformed
      then fst (createNote e (Some ''Welcome to takenote'')
                  (Some ''<p>Welcome to takenote! Start taking notes.</p>'') m)
      else
        (let m1 = (case notesItem (storage m) of NotesArray ns \<Rightarrow> m\<lparr>notes := ns\<rparr> | _ \<Rightarrow> m);
             first = (case notes m1 of [] \<Rightarrow> m1 | n # _ \<Rightarrow> m1\<lparr>activeNoteId := Some (note_id n)\<rparr>);
             m2 = (case activeItem (storage m) of
                     None \<Rightarrow> first
                   | Some a \<Rightarrow>
                       if a \<noteq> [] \<and> getNoteById a m1 \<noteq> None
                       then m1\<lparr>activeNoteId := Some a\<rparr>
                       else first)
         in if notes m2 = []
            then fst (createNote e (Some ''Welcome to takenote'') (Some welcomeContent) m2)
            else m2))"

definition sanitizeFilename :: "string \<Rightarrow> string" where
  \<comment> \<open>\<open>replace(/[^a-z0-9]/gi, '_').toLowerCase()\<close>\<close>
  "sanitizeFilename f =
     toLowerCase (map (\<lambda>c. let n = (of_char c :: nat)
                           in if (97 \<le> n \<and> n \<le> 122) \<or> (65 \<le> n \<and> n \<le> 90) \<or> (48 \<le> n \<and> n \<le> 57)
                              then c else CHR ''_'') f)"

record exported =
  exTitle :: string
  exContent :: string
  exFilename :: string

text \<open>
  \<open>exportNoteAsText\<close> and \<open>getNoteStats\<close> hand the content to the rendering engine
  (\<open>div.innerHTML = content\<close>) and read \<open>div.textContent\<close> back. The engine is not part of
  the repository: its conversion from markup to text is the parameter \<open>toText\<close>.
\<close>

definition exportNoteAsText :: "(string \<Rightarrow> string) \<Rightarrow> string \<Rightarrow> NoteManager \<Rightarrow> exported option" where
  "exportNoteAsText toText i m =
     (case getNoteById i m of
        None \<Rightarrow> None
      | Some n \<Rightarrow>
          Some \<lparr>exTitle = title n,
                exContent = toText (content n),
                exFilename = sanitizeFilename (title n) @ ''.txt''\<rparr>)"

definition escapeChar :: "char \<Rightarrow> string" where
  \<comment> \<open>how the serialisation of a text node (\<open>div.textContent = text; div.innerHTML\<close>) writes
      one character\<close>
  "escapeChar c =
     (if c = CHR ''&'' then ''&amp;''
      else if c = CHR ''<'' then ''&lt;''
      else if c = CHR ''>'' then ''&gt;''
      else if c = CHR 0xA0 then ''&nbsp;''
      else [c])"

definition escapeHtml :: "string \<Rightarrow> string" where
  "escapeHtml text = concat (map escapeChar text)"

definition stripExtension :: "string \<Rightarrow> string" where
  \<comment> \<open>\<open>replace(/\\.[^/.]+$/, '')\<close>: the match can only start at the last dot, and needs at
      least one character after it and no slash there\<close>
  "stripExtension f =
     (let ext = takeWhile (\<lambda>c. c \<noteq> CHR ''.'') (rev f)
      in if length ext < length f \<and> ext \<noteq> [] \<and> CHR ''/'' \<notin> set ext
         then take (length f - length ext - 1) f
         else f)"

definition paragraphs :: "string \<Rightarrow> string" where
  "paragraphs c =
     concat (map (\<lambda>line. ''<p>'' @ escapeHtml line @ ''</p>'')
               (filter (\<lambda>line. length line > 0) (map trim (splitChar CHR 0x0A c))))"

definition importTextContent :: "createEnv \<Rightarrow> string \<Rightarrow> string option \<Rightarrow> NoteManager \<Rightarrow> NoteManager \<times> Note" where
  \<comment> \<open>a file name that is left out (\<open>None\<close>) takes the default \<open>''\<close>\<close>
  "importTextContent e c filenameArg m =
     (let filename = (case filenameArg of None \<Rightarrow> [] | Some f \<Rightarrow> f);
          t = (if filename \<noteq> [] then stripExtension filename else ''Imported Note'');
          htmlContent = paragraphs c
      in createNote e (Some t) (Some (if htmlContent \<noteq> [] then htmlContent else ''<p></p>'')) m)"

record stats =
  words :: nat
  characters :: nat
  sentences :: nat

definition isTerminator :: "char \<Rightarrow> bool" where
  \<comment> \<open>the class \<open>[.!?]\<close>\<close>
  "isTerminator c \<longleftrightarrow> c = CHR ''.'' \<or> c = CHR ''!'' \<or> c = CHR ''?''"

definition getNoteStats :: "(string \<Rightarrow> string) \<Rightarrow> string \<Rightarrow> stats" where
  "getNoteStats toText c =
     (if c = [] then \<lparr>words = 0, characters = 0, sentences = 0\<rparr>
      else
        (let plainText = toText c
         in \<lparr>words = (if trim plainText \<noteq> [] then length (splitRuns isWhiteSpace (trim plainText)) else 0),
             characters = length plainText,
             sentences = (if trim plainText \<noteq> []
                          then length (filter (\<lambda>s. length (trim s) > 0) (splitRuns isTerminator plainText))
                          else 0)\<rparr>))"

definition matchReference :: "string \<Rightarrow> (char \<times> nat) option" where
  \<comment> \<open>the character that the text behind an \<open>&\<close> names, and the length of the name with its
      semicolon: the four references that \<open>escapeChar\<close> writes, and the two quotes\<close>
  "matchReference cs =
     (if take 4 cs = ''amp;'' then Some (CHR ''&'', 4)
      else if take 3 cs = ''lt;'' then Some (CHR ''<'', 3)
      else if take 3 cs = ''gt;'' then Some (CHR ''>'', 3)
      else if take 5 cs = ''nbsp;'' then Some (CHR 0xA0, 5)
      else if take 5 cs = ''quot;'' then Some (CHR 0x22, 5)
      else if take 4 cs = ''#39;'' then Some (CHR 0x27, 4)
      else None)"

fun decodeFrom :: "nat \<Rightarrow> string \<Rightarrow> string" where
  \<comment> \<open>one pass from left to right; the number says how many characters of a reference that
      was just decoded are still to be skipped\<close>
  "decodeFrom k [] = []"
| "decodeFrom (Suc k) (c # cs) = decodeFrom k cs"
| "decodeFrom 0 (c # cs) =
     (if c = CHR ''&'' then
        (case matchReference cs of
           Some (d, n) \<Rightarrow> d # decodeFrom n cs
         | None \<Rightarrow> c # decodeFrom 0 cs)
      else c # decodeFrom 0 cs)"

definition decodeReferences :: "string \<Rightarrow> string" where
  "decodeReferences s = decodeFrom 0 s"

text \<open>
  Modelled from the spec: the rendering engine's conversion of markup to text, which the
  repository only calls. The specification describes it as removing all tags, a tag reaching
  from \<open><\<close> to the next \<open>>\<close>, and decoding what remains to the text it stands for, with a
  small set of character references. The references decoded here are \<open>&amp;\<close>, \<open>&lt;\<close>,
  \<open>&gt;\<close>, \<open>&nbsp;\<close>, \<open>&quot;\<close> and \<open>&#39;\<close>; any other \<open>&\<close> stays as it is.
\<close>

definition textContent :: "string \<Rightarrow> string" where
  "textContent c = decodeReferences (stripFrom False c)"

definition newNoteManager :: "createEnv \<Rightarrow> localStorage \<Rightarrow> NoteManager" where
  \<comment> \<open>the constructor\<close>
  "newNoteManager e st = loadNotesFromStorage e \<lparr>notes = [], activeNoteId = None, storage = st\<rparr>"

section \<open>The coordinator (class TakenoteApp)\<close>

record File =
  fileName :: string
  fileType :: string

text \<open>
  The calls the coordinator makes on its collaborators, in the order it makes them: loading a
  content into the editing surface, saving the open note through
  \<open>updateNoteTitleFromContent\<close>, the messages shown to the user and the start of a file read.
  Rendering the list and the counters (\<open>updateUI\<close>) and focusing the editor change nothing
  of the state below and are left out.
\<close>

datatype event =
  SetContent string
| SavedNote string string
| ShowToast string
| ShowErrorMessage string
| ReadAsText File
| ShowFileUploadFeedback string

text \<open>
  Modelled from the spec: the editing surface (class \<open>Editor\<close>, not among the sources), a
  black box exposing get and set content. The field \<open>editor\<close> is what \<open>getContent()\<close>
  returns; \<open>setContent\<close> replaces it, and the user's edits change it between requests.
\<close>

record TakenoteApp =
  noteManager :: NoteManager
  editor :: string
  currentNoteId :: "string option"
  events :: "event list"

definition createNewNote :: "createEnv \<Rightarrow> TakenoteApp \<Rightarrow> TakenoteApp" where
  "createNewNote e a =
     (let (m, newNote) = createNote e None None (noteManager a)
      in a\<lparr>noteManager := m,
           currentNoteId := Some (note_id newNote),
           editor := ''<p><br></p>'',
           events := events a @ [SetContent ''<p><br></p>'', ShowToast ''New note created!'']\<rparr>)"

definition loadInitialNote :: "createEnv \<Rightarrow> TakenoteApp \<Rightarrow> TakenoteApp" where
  "loadInitialNote e a =
     (case getActiveNote (noteManager a) of
        Some activeNote \<Rightarrow>
          a\<lparr>currentNoteId := Some (note_id activeNote),
            editor := content activeNote,
            events := events a @ [SetContent (content activeNote)]\<rparr>
      | None \<Rightarrow> createNewNote e a)"

definition saveCurrentNote :: "nat \<Rightarrow> TakenoteApp \<Rightarrow> TakenoteApp" where
  "saveCurrentNote now a =
     (case currentNoteId a of
        None \<Rightarrow> a
      | Some cur \<Rightarrow>
          if cur = [] then a
          else a\<lparr>noteManager := updateNoteTitleFromContent now cur (editor a) (noteManager a),
                 events := events a @ [SavedNote cur (editor a)]\<rparr>)"

definition switchToNote :: "nat \<Rightarrow> string \<Rightarrow> TakenoteApp \<Rightarrow> TakenoteApp" where
  "switchToNote now noteId a =
     (case getNoteById noteId (noteManager a) of
        None \<Rightarrow> a
      | Some n \<Rightarrow>
          (let a1 = (if truthy (currentNoteId a) \<and> currentNoteId a \<noteq> Some noteId
                     then saveCurrentNote now a else a);
               a2 = a1\<lparr>noteManager := fst (setActiveNote noteId (noteManager a1)),
                       currentNoteId := Some noteId\<rparr>
           in a2\<lparr>editor := content n, events := events a2 @ [SetContent (content n)]\<rparr>))"

definition deleteNoteApp :: "createEnv \<Rightarrow> string \<Rightarrow> TakenoteApp \<Rightarrow> TakenoteApp" where
  \<comment> \<open>\<open>TakenoteApp.deleteNote\<close>; its second argument, the title, is not used\<close>
  "deleteNoteApp e noteId a =
     (let (m, wasDeleted) = deleteNote noteId (noteManager a);
          a1 = a\<lparr>noteManager := m\<rparr>
      in if wasDeleted then
           (if Some noteId = currentNoteId a1 then
              (case getActiveNote m of
                 Some newActiveNote \<Rightarrow>
                   a1\<lparr>currentNoteId := Some (note_id newActiveNote),
                      editor := content newActiveNote,
                      events := events a1 @ [SetContent (content newActiveNote),
                                             ShowToast ''Note deleted successfully!'']\<rparr>
               | None \<Rightarrow> createNewNote e a1)
            else a1\<lparr>events := events a1 @ [ShowToast ''Note deleted successfully!'']\<rparr>)
         else a1\<lparr>events := events a1 @ [ShowErrorMessage ''Failed to delete note.'']\<rparr>)"

definition allowedTypes :: "string list" where
  "allowedTypes = [''text/plain'', ''text/markdown'']"

definition allowedExtensions :: "string list" where
  "allowedExtensions = [''.txt'', ''.md'']"

definition hasValidType :: "File \<Rightarrow> bool" where
  "hasValidType f \<longleftrightarrow> fileType f \<in> set allowedTypes"

definition hasValidExtension :: "File \<Rightarrow> bool" where
  "hasValidExtension f \<longleftrightarrow> list_ex (\<lambda>ext. endsWith (toLowerCase (fileName f)) ext) allowedExtensions"

definition handleFileUpload :: "File option \<Rightarrow> TakenoteApp \<Rightarrow> TakenoteApp" where
  \<comment> \<open>up to the start of the read; the read ends later in \<open>readerOnload\<close> or
      \<open>readerOnerror\<close>\<close>
  "handleFileUpload file a =
     (case file of
        None \<Rightarrow> a
      | Some f \<Rightarrow>
          if \<not> hasValidType f \<and> \<not> hasValidExtension f
          then a\<lparr>events := events a @
                  [ShowErrorMessage ''Please select a text file (.txt) or markdown file (.md).'']\<rparr>
          else a\<lparr>events := events a @ [ReadAsText f]\<rparr>)"

definition readerOnload :: "createEnv \<Rightarrow> nat \<Rightarrow> File \<Rightarrow> string \<Rightarrow> TakenoteApp \<Rightarrow> TakenoteApp" where
  "readerOnload e now f c a =
     (let (m, newNote) = importTextContent e c (Some (fileName f)) (noteManager a);
          a1 = switchToNote now (note_id newNote) (a\<lparr>noteManager := m\<rparr>)
      in a1\<lparr>events := events a1 @ [ShowFileUploadFeedback (fileName f)]\<rparr>)"

definition readerOnerror :: "TakenoteApp \<Rightarrow> TakenoteApp" where
  "readerOnerror a = a\<lparr>events := events a @ [ShowErrorMessage ''Failed to read file. Please try again.'']\<rparr>"

section \<open>Sequences of store operations\<close>

datatype storeOp =
  CreateNote createEnv "string option" "string option"
| UpdateNote nat string updates
| UpdateNoteTitle nat string string
| UpdateNoteTitleFromContent nat string string
| DeleteNote string
| SetActiveNote string
| ImportTextContent createEnv string "string option"

fun applyOp :: "storeOp \<Rightarrow> NoteManager \<Rightarrow> NoteManager" where
  "applyOp (CreateNote e t c) m = fst (createNote e t c m)"
| "applyOp (UpdateNote now i u) m = fst (updateNote now i u m)"
| "applyOp (UpdateNoteTitle now i t) m = fst (updateNoteTitle now i t m)"
| "applyOp (UpdateNoteTitleFromContent now i c) m = updateNoteTitleFromContent now i c m"
| "applyOp (DeleteNote i) m = fst (deleteNote i m)"
| "applyOp (SetActiveNote i) m = fst (setActiveNote i m)"
| "applyOp (ImportTextContent e c f) m = fst (importTextContent e c f m)"

fun runOps :: "storeOp list \<Rightarrow> NoteManager \<Rightarrow> NoteManager" where
  "runOps [] m = m"
| "runOps (op # ops) m = runOps ops (applyOp op m)"

section \<open>The properties\<close>

definition noteIds :: "NoteManager \<Rightarrow> string list" where
  "noteIds m = map note_id (notes m)"

definition titlesNonEmpty :: "NoteManager \<Rightarrow> bool" where
  "titlesNonEmpty m \<longleftrightarrow> list_all (\<lambda>n. title n \<noteq> []) (notes m)"

definition activeValid :: "NoteManager \<Rightarrow> bool" where
  \<comment> \<open>the active id is unset, or it is the id of a note of the collection\<close>
  "activeValid m \<longleftrightarrow> (case activeNoteId m of None \<Rightarrow> True | Some a \<Rightarrow> a \<in> set (noteIds m))"

definition activeNotes :: "NoteManager \<Rightarrow> Note list" where
  \<comment> \<open>the notes that have the active id: those that \<open>renderNotesList\<close> marks as active
      (\<open>note.id === activeNoteId\<close>)\<close>
  "activeNotes m = filter (\<lambda>n. activeNoteId m = Some (note_id n)) (notes m)"

definition keepsId :: "storeOp \<Rightarrow> bool" where
  \<comment> \<open>the operation does not change the id of a note: an update carries no id, or the id
      of the note it is applied to\<close>
  "keepsId op \<longleftrightarrow>
     (case op of
        UpdateNote now i u \<Rightarrow> newId u = None \<or> newId u = Some i
      | _ \<Rightarrow> True)"

definition freshId :: "storeOp \<Rightarrow> NoteManager \<Rightarrow> bool" where
  \<comment> \<open>the id that the operation generates, if it generates one, is not the id of a note of
      the collection\<close>
  "freshId op m \<longleftrightarrow>
     (case op of
        CreateNote e t c \<Rightarrow> generateId e \<notin> set (noteIds m)
      | ImportTextContent e c f \<Rightarrow> generateId e \<notin> set (noteIds m)
      | _ \<Rightarrow> True)"

fun runFresh :: "storeOp list \<Rightarrow> NoteManager \<Rightarrow> bool" where
  \<comment> \<open>every id generated in the run is fresh at the moment it is generated\<close>
  "runFresh [] m = True"
| "runFresh (op # ops) m = (freshId op m \<and> runFresh ops (applyOp op m))"

definition storedDistinct :: "localStorage \<Rightarrow> bool" where
  \<comment> \<open>the notes kept in the storage, if any, have distinct ids\<close>
  "storedDistinct st \<longleftrightarrow>
     (case notesItem st of NotesArray ns \<Rightarrow> distinct (map note_id ns) | _ \<Rightarrow> True)"

definition givesTitle :: "storeOp \<Rightarrow> bool" where
  \<comment> \<open>the operation does not hand an empty title to the store: a title given to
      \<open>createNote\<close> or carried by an update is not empty, and a file name given to
      \<open>importTextContent\<close> is empty or has a non-empty part before its extension\<close>
  "givesTitle op \<longleftrightarrow>
     (case op of
        CreateNote e t c \<Rightarrow> t \<noteq> Some []
      | UpdateNote now i u \<Rightarrow> newTitle u \<noteq> Some []
      | ImportTextContent e c f \<Rightarrow>
          (case f of None \<Rightarrow> True | Some fn \<Rightarrow> fn = [] \<or> stripExtension fn \<noteq> [])
      | _ \<Rightarrow> True)"

fun removeFirst :: "('a \<Rightarrow> bool) \<Rightarrow> 'a list \<Rightarrow> 'a list" where
  \<comment> \<open>the list without its first element that satisfies the predicate\<close>
  "removeFirst P [] = []"
| "removeFirst P (x # xs) = (if P x then xs else x # removeFirst P xs)"

definition persisted :: "NoteManager \<Rightarrow> bool" where
  \<comment> \<open>the storage holds the collection and the active id of the state\<close>
  "persisted m \<longleftrightarrow>
     notesItem (storage m) = NotesArray (notes m) \<and>
     activeItem (storage m) = Some (case activeNoteId m of None \<Rightarrow> [] | Some a \<Rightarrow> a)"

function tokens :: "(char \<Rightarrow> bool) \<Rightarrow> string \<Rightarrow> string list" where
  \<comment> \<open>the tokens of a text delimited by the characters of a class: skip the delimiters, take
      the characters up to the next delimiter, and go on behind them\<close>
  "tokens P s =
     (case dropWhile P s of
        [] \<Rightarrow> []
      | c # cs \<Rightarrow> (c # takeWhile (\<lambda>x. \<not> P x) cs) # tokens P (dropWhile (\<lambda>x. \<not> P x) cs))"
  by pat_completeness auto
termination
proof (relation "measure (\<lambda>(P, s). length s)", goal_cases)
  case 1
  show ?case by simp
next
  case (2 P s c cs)
  have "length (dropWhile (\<lambda>x. \<not> P x) cs) \<le> length cs"
    by (rule length_dropWhile_le)
  moreover have "length (c # cs) \<le> length s"
    using length_dropWhile_le [of P s] 2 by simp
  ultimately show ?case by simp
qed

declare tokens.simps [simp del]

definition blank :: "string \<Rightarrow> bool" where
  "blank s \<longleftrightarrow> list_all isWhiteSpace s"

definition firstNonEmptyLine :: "string \<Rightarrow> string option" where
  "firstNonEmptyLine s = find (\<lambda>l. l \<noteq> []) (splitChar CHR 0x0A s)"

definition firstNonBlankLine :: "string \<Rightarrow> string option" where
  "firstNonBlankLine s = find (\<lambda>l. \<not> blank l) (splitChar CHR 0x0A s)"

definition truncateTitle :: "string \<Rightarrow> string" where
  \<comment> \<open>50 characters and an ellipsis marker when the line is longer, the line otherwise\<close>
  "truncateTitle l = (if length l > 50 then take 50 l @ ''...'' else l)"

definition markupSignificant :: "char \<Rightarrow> bool" where
  \<comment> \<open>the characters that the serialisation of a text node escapes\<close>
  "markupSignificant c \<longleftrightarrow> c = CHR ''&'' \<or> c = CHR ''<'' \<or> c = CHR ''>'' \<or> c = CHR 0xA0"

definition plainLines :: "string \<Rightarrow> string list" where
  \<comment> \<open>the lines of a text that are not blank, each without its surrounding white space\<close>
  "plainLines s = filter (\<lambda>l. l \<noteq> []) (map trim (splitChar CHR 0x0A s))"

definition readNat :: "string \<Rightarrow> nat" where
  \<comment> \<open>the number a string of decimal digits denotes\<close>
  "readNat s = foldl (\<lambda>a c. 10 * a + (of_char c - 48)) 0 s"

section \<open>Example states\<close>

definition exampleEnv :: createEnv where
  "exampleEnv = \<lparr>nowMs = 5, randomPart = ''k3x9'', createdNow = 5, updatedNow = 5\<rparr>"

definition sameMsEnv :: createEnv where
  \<comment> \<open>a call in the same millisecond that draws the same digits; the clock advances between
      the reads for the two timestamps\<close>
  "sameMsEnv = \<lparr>nowMs = 5, randomPart = ''k3x9'', createdNow = 5, updatedNow = 6\<rparr>"

definition emptyStorage :: localStorage where
  "emptyStorage = \<lparr>readable = True, writable = True, notesItem = NoItem, activeItem = None\<rparr>"

definition noteA :: Note where
  "noteA = \<lparr>note_id = ''a'', title = ''First'', content = ''<p>old</p>'', createdAt = 1, updatedAt = 1\<rparr>"

definition noteB :: Note where
  "noteB = \<lparr>note_id = ''b'', title = ''Second'', content = ''<p>two</p>'', createdAt = 2, updatedAt = 2\<rparr>"

definition twoNotes :: NoteManager where
  "twoNotes =
     \<lparr>notes = [noteA, noteB], activeNoteId = Some ''a'',
      storage = \<lparr>readable = True, writable = True,
                 notesItem = NotesArray [noteA, noteB], activeItem = Some ''a''\<rparr>\<rparr>"

definition twoNotesFull :: NoteManager where
  \<comment> \<open>the same store over a storage that refuses every write\<close>
  "twoNotesFull =
     \<lparr>notes = [noteA, noteB], activeNoteId = Some ''a'',
      storage = \<lparr>readable = True, writable = False,
                 notesItem = NotesArray [noteA, noteB], activeItem = Some ''a''\<rparr>\<rparr>"

definition oneNote :: NoteManager where
  "oneNote =
     \<lparr>notes = [noteA], activeNoteId = Some ''a'',
      storage = \<lparr>readable = True, writable = True,
                 notesItem = NotesArray [noteA], activeItem = Some ''a''\<rparr>\<rparr>"

definition laterEnv :: createEnv where
  "laterEnv = \<lparr>nowMs = 6, randomPart = ''p0q1'', createdNow = 6, updatedNow = 6\<rparr>"

definition retitle :: updates where
  \<comment> \<open>an update that carries a title and nothing else\<close>
  "retitle = \<lparr>newId = None, newTitle = Some ''Renamed'', newContent = None, newCreatedAt = None\<rparr>"

definition renameId :: updates where
  \<comment> \<open>an update that carries the id \<open>x\<close> and nothing else\<close>
  "renameId = \<lparr>newId = Some ''x'', newTitle = None, newContent = None, newCreatedAt = None\<rparr>"

definition exampleApp :: TakenoteApp where
  \<comment> \<open>note \<open>a\<close> is open and has been edited since it was saved\<close>
  "exampleApp = \<lparr>noteManager = twoNotes, editor = ''<p>new</p>'', currentNoteId = Some ''a'', events = []\<rparr>"

definition upperCaseFile :: File where
  "upperCaseFile = \<lparr>fileName = ''NOTES.TXT'', fileType = ''application/octet-stream''\<rparr>"

definition pdfFile :: File where
  "pdfFile = \<lparr>fileName = ''report.pdf'', fileType = ''application/pdf''\<rparr>"

definition longLine :: string where
  \<comment> \<open>a heading of 60 characters\<close>
  "longLine = ''<h1>0123456789abcdefghij0123456789abcdefghij0123456789abcdefghij</h1>''"


section \<open>The string functions on examples\<close>

lemma split_examples:
  "splitChar CHR 0x0A ''a\<newline>\<newline>b'' = [''a'', [], ''b''] \<and>
   splitChar CHR 0x0A [] = [[]] \<and>
   splitRuns isTerminator ''Hello world.'' = [''Hello world'', []] \<and>
   splitRuns isTerminator ''..a!?b'' = [[], ''a'', ''b''] \<and>
   splitRuns isTerminator [] = [[]] \<and>
   splitRuns isWhiteSpace ''a  b c'' = [''a'', ''b'', ''c'']"
  by code_simp

lemma removeTags_examples:
  "removeTags ''<p>Hello <b>world</b></p>'' = ''Hello world'' \<and>
   removeTags ''a < b'' = ''a < b'' \<and>
   removeTags ''a < b > c'' = ''a  c'' \<and>
   removeTags ''<unclosed'' = ''<unclosed''"
  by code_simp

lemma stripExtension_examples:
  "stripExtension ''notes.txt'' = ''notes'' \<and>
   stripExtension ''a.b.md'' = ''a.b'' \<and>
   stripExtension ''.md'' = [] \<and>
   stripExtension ''a.'' = ''a.'' \<and>
   stripExtension ''noext'' = ''noext'' \<and>
   stripExtension ''a.b/c'' = ''a.b/c''"
  by code_simp

lemma trim_examples:
  "trim ''  a b \<newline>'' = ''a b'' \<and> trim '' \<newline> '' = [] \<and> toLowerCase ''README.Md'' = ''readme.md''"
  by code_simp

section \<open>Lemmas about the store\<close>


lemma findIndex_None_iff: "findIndex P xs = None \<longleftrightarrow> (\<forall>x\<in>set xs. \<not> P x)"
  by (induction xs) auto

lemma findIndex_Some_props:
  "findIndex P xs = Some k \<Longrightarrow> k < length xs \<and> P (xs ! k) \<and> (\<forall>j<k. \<not> P (xs ! j))"
proof (induction xs arbitrary: k)
  case Nil
  then show ?case by simp
next
  case (Cons x xs)
  show ?case
  proof (cases "P x")
    case True
    with Cons.prems show ?thesis by simp
  next
    case False
    with Cons.prems obtain k' where k': "findIndex P xs = Some k'" "k = Suc k'"
      by auto
    from Cons.IH [OF k'(1)] False k'(2) show ?thesis
      by (auto simp: less_Suc_eq_0_disj)
  qed
qed

lemma find_findIndex: "find P xs = map_option (\<lambda>k. xs ! k) (findIndex P xs)"
  by (induction xs) (auto simp: option.map_comp comp_def)

lemma splice1_removeFirst:
  "findIndex P xs = Some k \<Longrightarrow> splice1 k xs = removeFirst P xs"
proof (induction xs arbitrary: k)
  case Nil
  then show ?case by simp
next
  case (Cons x xs)
  show ?case
  proof (cases "P x")
    case True
    with Cons.prems show ?thesis by (simp add: splice1_def)
  next
    case False
    with Cons.prems obtain k' where k': "findIndex P xs = Some k'" "k = Suc k'"
      by auto
    from Cons.IH [OF k'(1)] False k'(2) show ?thesis
      by (simp add: splice1_def)
  qed
qed

lemma set_removeFirst_subset: "set (removeFirst P xs) \<subseteq> set xs"
  by (induction xs) auto

lemma removeFirst_keeps: "x \<in> set xs \<Longrightarrow> \<not> P x \<Longrightarrow> x \<in> set (removeFirst P xs)"
  by (induction xs) auto

lemma getNoteById_None_iff: "getNoteById i m = None \<longleftrightarrow> i \<notin> set (noteIds m)"
  by (auto simp: getNoteById_def noteIds_def find_None_iff)

lemma findIndex_id_None_iff:
  "findIndex (\<lambda>n. note_id n = i) (notes m) = None \<longleftrightarrow> i \<notin> set (noteIds m)"
  by (auto simp: findIndex_None_iff noteIds_def)

lemma notes_save [simp]: "notes (saveNotesToStorage m) = notes m"
  by (simp add: saveNotesToStorage_def)

lemma active_save [simp]: "activeNoteId (saveNotesToStorage m) = activeNoteId m"
  by (simp add: saveNotesToStorage_def)

lemma persisted_save: "writable (storage m) \<Longrightarrow> persisted (saveNotesToStorage m)"
  by (simp add: saveNotesToStorage_def persisted_def)

lemma unwritable_save: "\<not> writable (storage m) \<Longrightarrow> saveNotesToStorage m = m"
  by (simp add: saveNotesToStorage_def)

section \<open>Operations on an id that is not in the collection\<close>

text \<open>
  C10. For an id that no note of the collection has, \<open>updateNote\<close>, \<open>updateNoteTitle\<close>,
  \<open>deleteNote\<close> and \<open>setActiveNote\<close> return their not-found value (\<open>null\<close>, here \<open>None\<close>, or
  \<open>false\<close>) and return the store as it was: the collection, the active id and the storage
  are the same, so nothing was written.
\<close>

theorem unknown_id_changes_nothing:
  assumes "i \<notin> set (noteIds m)"
  shows "updateNote now i u m = (m, None) \<and>
         updateNoteTitle now i t m = (m, None) \<and>
         deleteNote i m = (m, False) \<and>
         setActiveNote i m = (m, None)"
proof -
  from assms have idx: "findIndex (\<lambda>n. note_id n = i) (notes m) = None"
    by (simp add: findIndex_id_None_iff)
  from assms have get: "getNoteById i m = None"
    by (simp add: getNoteById_None_iff)
  show ?thesis
    by (simp add: updateNote_def updateNoteTitle_def deleteNote_def setActiveNote_def idx get)
qed

theorem unknown_id_changes_nothing_witness:
  "''zz'' \<notin> set (noteIds twoNotes) \<and>
   updateNote 9 ''zz'' \<lparr>newId = None, newTitle = Some ''T'', newContent = None, newCreatedAt = None\<rparr> twoNotes = (twoNotes, None) \<and>
   updateNoteTitle 9 ''zz'' ''T'' twoNotes = (twoNotes, None) \<and>
   deleteNote ''zz'' twoNotes = (twoNotes, False) \<and>
   setActiveNote ''zz'' twoNotes = (twoNotes, None)"
proof -
  have h: "''zz'' \<notin> set (noteIds twoNotes)"
    by (simp add: noteIds_def twoNotes_def noteA_def noteB_def)
  from unknown_id_changes_nothing [OF h] h show ?thesis by simp
qed

section \<open>Deleting a note\<close>





lemma map_id_update:
  "k < length xs \<Longrightarrow> note_id n' = note_id (xs ! k) \<Longrightarrow> map note_id (xs[k := n']) = map note_id xs"
  by (simp add: map_update list_update_same_conv)

lemma noteIds_updateNote:
  assumes "newId u = None \<or> newId u = Some i"
  shows "noteIds (fst (updateNote now i u m)) = noteIds m"
proof (cases "findIndex (\<lambda>n. note_id n = i) (notes m)")
  case None
  then show ?thesis by (simp add: updateNote_def)
next
  case (Some k)
  from findIndex_Some_props [OF Some]
  have k: "k < length (notes m)" and idk: "note_id (notes m ! k) = i" by simp_all
  from assms idk have "note_id (merge (notes m ! k) u now) = note_id (notes m ! k)"
    by (auto simp: merge_def)
  from map_id_update [OF k this] show ?thesis
    by (simp add: updateNote_def Some Let_def noteIds_def)
qed

lemma active_updateNote [simp]: "activeNoteId (fst (updateNote now i u m)) = activeNoteId m"
  by (simp add: updateNote_def Let_def split: option.splits)

lemma noteIds_updateNoteTitle [simp]: "noteIds (fst (updateNoteTitle now i t m)) = noteIds m"
proof (cases "findIndex (\<lambda>n. note_id n = i) (notes m)")
  case None
  then show ?thesis by (simp add: updateNoteTitle_def)
next
  case (Some k)
  from findIndex_Some_props [OF Some] have "k < length (notes m)" by simp
  then show ?thesis
    by (simp add: updateNoteTitle_def Some Let_def noteIds_def map_id_update)
qed

lemma active_updateNoteTitle [simp]: "activeNoteId (fst (updateNoteTitle now i t m)) = activeNoteId m"
  by (simp add: updateNoteTitle_def Let_def split: option.splits)

lemma activeValid_createNote: "activeValid (fst (createNote e t c m))"
  by (simp add: createNote_def Let_def activeValid_def noteIds_def)

lemma activeValid_deleteNote:
  assumes "activeValid m"
  shows "activeValid (fst (deleteNote i m))"
proof (cases "findIndex (\<lambda>n. note_id n = i) (notes m)")
  case None
  with assms show ?thesis by (simp add: deleteNote_def)
next
  case (Some k)
  let ?ns = "removeFirst (\<lambda>n. note_id n = i) (notes m)"
  have rm: "splice1 k (notes m) = ?ns"
    by (rule splice1_removeFirst [OF Some])
  show ?thesis
  proof (cases "activeNoteId m = Some i")
    case True
    then show ?thesis
      by (simp add: deleteNote_def Some Let_def rm activeValid_def noteIds_def split: list.splits)
  next
    case False
    show ?thesis
    proof (cases "activeNoteId m")
      case None
      then show ?thesis
        by (simp add: deleteNote_def Some Let_def activeValid_def)
    next
      case (Some a)
      with False have ne: "a \<noteq> i" by simp
      from assms Some obtain n where n: "n \<in> set (notes m)" "note_id n = a"
        by (auto simp: activeValid_def noteIds_def)
      with ne have "n \<in> set ?ns"
        by (auto intro: removeFirst_keeps)
      with n(2) have "a \<in> note_id ` set ?ns" by auto
      with Some ne \<open>findIndex (\<lambda>n. note_id n = i) (notes m) = Some k\<close> show ?thesis
        by (simp add: deleteNote_def Let_def rm activeValid_def noteIds_def)
    qed
  qed
qed

lemma activeValid_setActiveNote: "activeValid m \<Longrightarrow> activeValid (fst (setActiveNote i m))"
proof (cases "getNoteById i m")
  case None
  assume "activeValid m"
  with None show ?thesis by (simp add: setActiveNote_def)
next
  case (Some n)
  then have "i \<in> set (noteIds m)"
    using getNoteById_None_iff [of i m] by auto
  with Some show ?thesis
    by (simp add: setActiveNote_def activeValid_def noteIds_def)
qed

lemma noteIds_fromContent [simp]: "noteIds (updateNoteTitleFromContent now i c m) = noteIds m"
  by (simp add: updateNoteTitleFromContent_def Let_def noteIds_updateNote)

lemma active_fromContent [simp]: "activeNoteId (updateNoteTitleFromContent now i c m) = activeNoteId m"
  by (simp add: updateNoteTitleFromContent_def Let_def)

lemma activeValid_applyOp:
  assumes "activeValid m" and "keepsId op"
  shows "activeValid (applyOp op m)"
proof (cases op)
  case (CreateNote e t c)
  then show ?thesis by (simp add: activeValid_createNote)
next
  case (UpdateNote now i u)
  with assms(2) have "noteIds (fst (updateNote now i u m)) = noteIds m"
    by (simp add: keepsId_def noteIds_updateNote)
  with assms(1) UpdateNote show ?thesis
    by (simp add: activeValid_def split: option.splits)
next
  case (UpdateNoteTitle now i t)
  with assms(1) show ?thesis by (simp add: activeValid_def split: option.splits)
next
  case (UpdateNoteTitleFromContent now i c)
  with assms(1) show ?thesis by (simp add: activeValid_def split: option.splits)
next
  case (DeleteNote i)
  with assms(1) show ?thesis by (simp add: activeValid_deleteNote)
next
  case (SetActiveNote i)
  with assms(1) show ?thesis by (simp add: activeValid_setActiveNote)
next
  case (ImportTextContent e c f)
  then show ?thesis by (simp add: importTextContent_def Let_def activeValid_createNote)
qed

lemma activeValid_runOps:
  "activeValid m \<Longrightarrow> list_all keepsId ops \<Longrightarrow> activeValid (runOps ops m)"
  by (induction ops arbitrary: m) (auto simp: activeValid_applyOp)

lemma distinct_removeFirst: "distinct (map f xs) \<Longrightarrow> distinct (map f (removeFirst P xs))"
proof (induction xs)
  case Nil
  then show ?case by simp
next
  case (Cons x xs)
  then show ?case
    using set_removeFirst_subset [of P xs] by auto
qed

lemma noteIds_deleteNote_distinct:
  assumes "distinct (noteIds m)"
  shows "distinct (noteIds (fst (deleteNote i m)))"
proof (cases "findIndex (\<lambda>n. note_id n = i) (notes m)")
  case None
  with assms show ?thesis by (simp add: deleteNote_def)
next
  case (Some k)
  from assms have "distinct (map note_id (removeFirst (\<lambda>n. note_id n = i) (notes m)))"
    unfolding noteIds_def by (rule distinct_removeFirst)
  then show ?thesis
    by (simp add: deleteNote_def Some Let_def noteIds_def splice1_removeFirst [OF Some])
qed

lemma noteIds_createNote: "noteIds (fst (createNote e t c m)) = generateId e # noteIds m"
  by (simp add: createNote_def Let_def noteIds_def)

lemma noteIds_setActiveNote: "noteIds (fst (setActiveNote i m)) = noteIds m"
  by (simp add: setActiveNote_def noteIds_def split: option.splits)

lemma distinct_applyOp:
  assumes "distinct (noteIds m)" and "keepsId op" and "freshId op m"
  shows "distinct (noteIds (applyOp op m))"
proof (cases op)
  case (CreateNote e t c)
  with assms show ?thesis by (simp add: freshId_def noteIds_createNote)
next
  case (UpdateNote now i u)
  with assms(2) have "noteIds (fst (updateNote now i u m)) = noteIds m"
    by (simp add: keepsId_def noteIds_updateNote)
  with assms(1) UpdateNote show ?thesis by simp
next
  case (UpdateNoteTitle now i t)
  with assms(1) show ?thesis by simp
next
  case (UpdateNoteTitleFromContent now i c)
  with assms(1) show ?thesis by simp
next
  case (DeleteNote i)
  with assms(1) show ?thesis by (simp add: noteIds_deleteNote_distinct)
next
  case (SetActiveNote i)
  with assms(1) show ?thesis by (simp add: noteIds_setActiveNote)
next
  case (ImportTextContent e c f)
  with assms show ?thesis
    by (simp add: freshId_def importTextContent_def Let_def noteIds_createNote)
qed

lemma distinct_runOps:
  "distinct (noteIds m) \<Longrightarrow> list_all keepsId ops \<Longrightarrow> runFresh ops m \<Longrightarrow>
   distinct (noteIds (runOps ops m))"
  by (induction ops arbitrary: m) (auto simp: distinct_applyOp)

lemma filter_by_key_distinct:
  "distinct (map f xs) \<Longrightarrow> length (filter (\<lambda>x. a = Some (f x)) xs) \<le> 1"
proof (induction xs)
  case Nil
  then show ?case by simp
next
  case (Cons x xs)
  show ?case
  proof (cases "a = Some (f x)")
    case True
    with Cons.prems have "filter (\<lambda>y. a = Some (f y)) xs = []"
      by (auto simp: filter_empty_conv)
    with True show ?thesis by simp
  next
    case False
    with Cons show ?thesis by simp
  qed
qed

lemma activeNotes_at_most_one: "distinct (noteIds m) \<Longrightarrow> length (activeNotes m) \<le> 1"
  unfolding noteIds_def activeNotes_def by (rule filter_by_key_distinct)

lemma distinct_load:
  assumes "storedDistinct st"
  shows "distinct (noteIds (loadNotesFromStorage e \<lparr>notes = [], activeNoteId = None, storage = st\<rparr>))"
proof (cases "\<not> readable st \<or> notesItem st = Malformed")
  case True
  then show ?thesis
    by (auto simp: loadNotesFromStorage_def createNote_def Let_def noteIds_def)
next
  case False
  show ?thesis
  proof (cases "notesItem st")
    case NoItem
    with False show ?thesis
      by (auto simp: loadNotesFromStorage_def Let_def createNote_def noteIds_def
               split: option.splits)
  next
    case Malformed
    with False show ?thesis by simp
  next
    case (NotesArray ns)
    show ?thesis
    proof (cases ns)
      case Nil
      with False NotesArray show ?thesis
        by (auto simp: loadNotesFromStorage_def Let_def createNote_def noteIds_def
                 split: option.splits)
    next
      case (Cons n ns')
      from assms NotesArray have "distinct (map note_id ns)"
        by (simp add: storedDistinct_def)
      with False NotesArray Cons show ?thesis
        by (auto simp: loadNotesFromStorage_def Let_def noteIds_def split: option.splits)
    qed
  qed
qed

lemma activeValid_load: "activeValid (loadNotesFromStorage e \<lparr>notes = [], activeNoteId = None, storage = st\<rparr>)"
proof -
  let ?m = "\<lparr>notes = [], activeNoteId = None, storage = st\<rparr>"
  show ?thesis
  proof (cases "\<not> readable st \<or> notesItem st = Malformed")
    case True
    then show ?thesis
      by (auto simp: loadNotesFromStorage_def activeValid_createNote)
  next
    case False
    show ?thesis
    proof (cases "notesItem st")
      case NoItem
      with False show ?thesis
        by (auto simp: loadNotesFromStorage_def Let_def activeValid_createNote getNoteById_def
                 split: option.splits)
    next
      case Malformed
      with False show ?thesis by simp
    next
      case (NotesArray ns)
      show ?thesis
      proof (cases ns)
        case Nil
        with False NotesArray show ?thesis
          by (auto simp: loadNotesFromStorage_def Let_def activeValid_createNote getNoteById_def
                   split: option.splits)
      next
        case (Cons n ns')
        have "\<And>a. find (\<lambda>n. note_id n = a) ns \<noteq> None \<Longrightarrow> a \<in> note_id ` set ns"
          by (auto simp: find_None_iff)
        with False NotesArray Cons show ?thesis
          by (auto simp: loadNotesFromStorage_def Let_def activeValid_def noteIds_def getNoteById_def
                   split: option.splits)
      qed
    qed
  qed
qed

section \<open>The active id\<close>

text \<open>
  C6. Claimed: after every store operation the active id is unset or the id of a note of the
  collection, and at most one note is active. \<open>updateNote\<close> spreads an id carried by its
  argument over the note, so it can take the id away from under the active id; and
  \<open>createNote\<close> does not check the id it generates against the collection, so two notes can
  have the active id. What holds: in the state the constructor leaves after loading from the
  storage, and after every sequence of store operations run from it (\<open>createNote\<close>,
  \<open>updateNote\<close>, \<open>updateNoteTitle\<close>, \<open>updateNoteTitleFromContent\<close>, \<open>deleteNote\<close>,
  \<open>setActiveNote\<close>, \<open>importTextContent\<close>) in which no update changes the id of a note, the
  active id is unset or is the id of a note of the collection; each such operation keeps
  this from any state that has it. When moreover the notes in the storage have distinct ids
  and every id generated in the run is not yet in the collection when it is generated, the
  ids of the collection are distinct and at most one note has the active id.
\<close>

theorem active_id_valid:
  "(list_all keepsId ops \<longrightarrow> activeValid (runOps ops (newNoteManager e st))) \<and>
   (activeValid m \<and> keepsId op \<longrightarrow> activeValid (applyOp op m)) \<and>
   (list_all keepsId ops \<and> storedDistinct st \<and> runFresh ops (newNoteManager e st) \<longrightarrow>
      distinct (noteIds (runOps ops (newNoteManager e st))) \<and>
      length (activeNotes (runOps ops (newNoteManager e st))) \<le> 1)"
proof -
  have "list_all keepsId ops \<longrightarrow> activeValid (runOps ops (newNoteManager e st))"
    by (simp add: newNoteManager_def activeValid_runOps activeValid_load)
  moreover have "activeValid m \<and> keepsId op \<longrightarrow> activeValid (applyOp op m)"
    by (simp add: activeValid_applyOp)
  moreover have "list_all keepsId ops \<and> storedDistinct st \<and> runFresh ops (newNoteManager e st) \<longrightarrow>
      distinct (noteIds (runOps ops (newNoteManager e st))) \<and>
      length (activeNotes (runOps ops (newNoteManager e st))) \<le> 1"
  proof
    assume h: "list_all keepsId ops \<and> storedDistinct st \<and> runFresh ops (newNoteManager e st)"
    then have "distinct (noteIds (newNoteManager e st))"
      by (simp add: newNoteManager_def distinct_load)
    with h have d: "distinct (noteIds (runOps ops (newNoteManager e st)))"
      by (simp add: distinct_runOps)
    from d activeNotes_at_most_one [OF d]
    show "distinct (noteIds (runOps ops (newNoteManager e st))) \<and>
          length (activeNotes (runOps ops (newNoteManager e st))) \<le> 1"
      by simp
  qed
  ultimately show ?thesis by (intro conjI)
qed

theorem active_id_valid_witness:
  "list_all keepsId
     [CreateNote laterEnv None None, UpdateNote 7 ''note_5_k3x9'' retitle, DeleteNote ''note_6_p0q1''] \<and>
   storedDistinct emptyStorage \<and>
   runFresh
     [CreateNote laterEnv None None, UpdateNote 7 ''note_5_k3x9'' retitle, DeleteNote ''note_6_p0q1'']
     (newNoteManager exampleEnv emptyStorage) \<and>
   activeValid (runOps
     [CreateNote laterEnv None None, UpdateNote 7 ''note_5_k3x9'' retitle, DeleteNote ''note_6_p0q1'']
     (newNoteManager exampleEnv emptyStorage)) \<and>
   length (activeNotes (runOps
     [CreateNote laterEnv None None, UpdateNote 7 ''note_5_k3x9'' retitle, DeleteNote ''note_6_p0q1'']
     (newNoteManager exampleEnv emptyStorage))) \<le> 1 \<and>
   activeValid twoNotes \<and> keepsId (DeleteNote ''a'') \<and>
   activeValid (applyOp (DeleteNote ''a'') twoNotes)"
proof -
  let ?ops = "[CreateNote laterEnv None None, UpdateNote 7 ''note_5_k3x9'' retitle,
               DeleteNote ''note_6_p0q1'']"
  have h1: "list_all keepsId ?ops" by code_simp
  have h2: "storedDistinct emptyStorage" by code_simp
  have h3: "runFresh ?ops (newNoteManager exampleEnv emptyStorage)" by code_simp
  have h4: "activeValid twoNotes" by code_simp
  have h5: "keepsId (DeleteNote ''a'')" by code_simp
  from active_id_valid [of ?ops exampleEnv emptyStorage twoNotes "DeleteNote ''a''"]
    h1 h2 h3 h4 h5
  show ?thesis by blast
qed

theorem active_id_claim_counterexample:
  "newNoteManager exampleEnv (storage twoNotes) = twoNotes \<and>
   activeValid twoNotes \<and>
   activeNoteId (runOps [UpdateNote 7 ''a'' renameId] twoNotes) = Some ''a'' \<and>
   noteIds (runOps [UpdateNote 7 ''a'' renameId] twoNotes) = [''x'', ''b''] \<and>
   \<not> activeValid (runOps [UpdateNote 7 ''a'' renameId] twoNotes) \<and>
   length (activeNotes
     (runOps [CreateNote exampleEnv None None, CreateNote sameMsEnv None None] twoNotes)) = 2"
  by code_simp

section \<open>Creating a note\<close>

lemma digitChar_code: "d < 10 \<Longrightarrow> (of_char (digitChar d) :: nat) = 48 + d"
  by (simp add: digitChar_def)

lemma digitChar_not_underscore: "d < 10 \<Longrightarrow> digitChar d \<noteq> CHR ''_''"
proof
  assume d: "d < 10" and eq: "digitChar d = CHR ''_''"
  from eq have "(of_char (digitChar d) :: nat) = of_char CHR ''_''" by simp
  with digitChar_code [OF d] d show False by simp
qed

lemma showNat_no_underscore: "CHR ''_'' \<notin> set (showNat n)"
proof (induction n rule: showNat.induct)
  case (1 n)
  show ?case
  proof (cases "n < 10")
    case True
    then show ?thesis
      using digitChar_not_underscore [of n] by (auto simp: showNat.simps [of n])
  next
    case False
    have "n mod 10 < 10" by simp
    from digitChar_not_underscore [OF this] 1 False show ?thesis
      by (auto simp: showNat.simps [of n])
  qed
qed

lemma readNat_showNat: "readNat (showNat n) = n"
proof (induction n rule: showNat.induct)
  case (1 n)
  show ?case
  proof (cases "n < 10")
    case True
    then show ?thesis
      by (simp add: showNat.simps [of n] readNat_def digitChar_code)
  next
    case False
    with 1 have ih: "readNat (showNat (n div 10)) = n div 10" by simp
    have "readNat (showNat n) = 10 * readNat (showNat (n div 10)) + (of_char (digitChar (n mod 10)) - 48)"
      using False by (simp add: showNat.simps [of n] readNat_def)
    also have "\<dots> = 10 * (n div 10) + n mod 10"
      by (simp add: ih digitChar_code)
    finally show ?thesis by simp
  qed
qed

lemma showNat_inj:
  assumes "showNat a = showNat b"
  shows "a = b"
proof -
  from assms have "readNat (showNat a) = readNat (showNat b)" by (simp only:)
  then show ?thesis by (simp only: readNat_showNat)
qed

lemma generateId_eq_iff:
  "generateId e = generateId e' \<longleftrightarrow> nowMs e = nowMs e' \<and> randomPart e = randomPart e'"
proof
  assume eq: "generateId e = generateId e'"
  let ?P = "\<lambda>c. c \<noteq> CHR ''_''"
  from eq have body: "showNat (nowMs e) @ CHR ''_'' # randomPart e =
                      showNat (nowMs e') @ CHR ''_'' # randomPart e'"
    by (simp add: generateId_def)
  have tw: "takeWhile ?P (showNat n @ CHR ''_'' # r) = showNat n" for n r
  proof -
    have "\<forall>x\<in>set (showNat n). ?P x"
      using showNat_no_underscore [of n] by auto
    then show ?thesis by (simp add: takeWhile_append)
  qed
  from body have "takeWhile ?P (showNat (nowMs e) @ CHR ''_'' # randomPart e) =
                  takeWhile ?P (showNat (nowMs e') @ CHR ''_'' # randomPart e')"
    by simp
  then have s: "showNat (nowMs e) = showNat (nowMs e')"
    by (simp only: tw)
  with body have "randomPart e = randomPart e'" by simp
  with showNat_inj [OF s] show "nowMs e = nowMs e' \<and> randomPart e = randomPart e'" by simp
next
  assume "nowMs e = nowMs e' \<and> randomPart e = randomPart e'"
  then show "generateId e = generateId e'" by (simp add: generateId_def)
qed

text \<open>
  C4. Claimed: the note \<open>createNote\<close> returns has an id distinct from every id generated
  before in the run and equal timestamps. The id is built from the millisecond clock and the
  digits drawn from the random source, and the two timestamps are two reads of the clock, so
  neither holds for every environment. What holds: \<open>createNote\<close> returns, for every input,
  a note with the generated id, the given title and content or their defaults, and the two
  clock reads as timestamps, which are equal exactly when the clock did not advance between
  the reads; the note is put at the front of the collection and becomes the active note; the
  state is handed to \<open>saveNotesToStorage\<close>, so it is in the storage afterwards unless the
  storage refuses the write; and the ids of two calls are equal exactly when both calls read
  the same millisecond and drew the same digits.
\<close>

theorem createNote_result:
  "snd (createNote e t c m) =
     \<lparr>note_id = generateId e,
      title = (case t of None \<Rightarrow> ''Untitled Note'' | Some x \<Rightarrow> x),
      content = (case c of None \<Rightarrow> [] | Some x \<Rightarrow> x),
      createdAt = createdNow e, updatedAt = updatedNow e\<rparr> \<and>
   notes (fst (createNote e t c m)) = snd (createNote e t c m) # notes m \<and>
   activeNoteId (fst (createNote e t c m)) = Some (generateId e) \<and>
   (writable (storage m) \<longrightarrow> persisted (fst (createNote e t c m))) \<and>
   (\<not> writable (storage m) \<longrightarrow> storage (fst (createNote e t c m)) = storage m) \<and>
   (createdAt (snd (createNote e t c m)) = updatedAt (snd (createNote e t c m))
      \<longleftrightarrow> createdNow e = updatedNow e) \<and>
   (note_id (snd (createNote e t c m)) = note_id (snd (createNote e' t' c' m'))
      \<longleftrightarrow> nowMs e = nowMs e' \<and> randomPart e = randomPart e')"
proof -
  have ids: "note_id (snd (createNote e t c m)) = generateId e"
            "note_id (snd (createNote e' t' c' m')) = generateId e'"
    by (simp_all add: createNote_def Let_def)
  have rest: "snd (createNote e t c m) =
     \<lparr>note_id = generateId e,
      title = (case t of None \<Rightarrow> ''Untitled Note'' | Some x \<Rightarrow> x),
      content = (case c of None \<Rightarrow> [] | Some x \<Rightarrow> x),
      createdAt = createdNow e, updatedAt = updatedNow e\<rparr> \<and>
   notes (fst (createNote e t c m)) = snd (createNote e t c m) # notes m \<and>
   activeNoteId (fst (createNote e t c m)) = Some (generateId e) \<and>
   (writable (storage m) \<longrightarrow> persisted (fst (createNote e t c m))) \<and>
   (\<not> writable (storage m) \<longrightarrow> storage (fst (createNote e t c m)) = storage m) \<and>
   (createdAt (snd (createNote e t c m)) = updatedAt (snd (createNote e t c m))
      \<longleftrightarrow> createdNow e = updatedNow e)"
    by (simp add: createNote_def Let_def saveNotesToStorage_def persisted_def)
  from rest ids generateId_eq_iff [of e e'] show ?thesis by simp
qed

theorem createNote_result_witness:
  "writable (storage twoNotes) \<and>
   persisted (fst (createNote exampleEnv None None twoNotes)) \<and>
   snd (createNote exampleEnv None None twoNotes) =
     \<lparr>note_id = ''note_5_k3x9'', title = ''Untitled Note'', content = [],
      createdAt = 5, updatedAt = 5\<rparr>"
proof -
  have w: "writable (storage twoNotes)" by (simp add: twoNotes_def)
  have g: "generateId exampleEnv = ''note_5_k3x9''"
    by code_simp
  from createNote_result [of exampleEnv None None twoNotes] w g show ?thesis
    by (simp add: exampleEnv_def)
qed

theorem createNote_claim_counterexample:
  "note_id (snd (createNote sameMsEnv None None (fst (createNote exampleEnv None None twoNotes))))
     = note_id (snd (createNote exampleEnv None None twoNotes)) \<and>
   createdAt (snd (createNote sameMsEnv None None (fst (createNote exampleEnv None None twoNotes))))
     \<noteq> updatedAt (snd (createNote sameMsEnv None None (fst (createNote exampleEnv None None twoNotes))))"
  by code_simp

section \<open>Titles\<close>

lemma titles_list_update:
  "list_all (\<lambda>n. title n \<noteq> []) xs \<Longrightarrow> title v \<noteq> [] \<Longrightarrow> list_all (\<lambda>n. title n \<noteq> []) (xs[k := v])"
  using set_update_subset_insert [of xs k v] by (auto simp: list_all_iff)

lemma titles_createNote:
  "titlesNonEmpty m \<Longrightarrow> t \<noteq> Some [] \<Longrightarrow> titlesNonEmpty (fst (createNote e t c m))"
  by (cases t) (simp_all add: titlesNonEmpty_def createNote_def Let_def)

lemma titles_updateNote:
  assumes "titlesNonEmpty m" and "newTitle u \<noteq> Some []"
  shows "titlesNonEmpty (fst (updateNote now i u m))"
proof (cases "findIndex (\<lambda>n. note_id n = i) (notes m)")
  case None
  with assms show ?thesis by (simp add: updateNote_def)
next
  case (Some k)
  from findIndex_Some_props [OF Some] have "notes m ! k \<in> set (notes m)" by simp
  with assms(1) have "title (notes m ! k) \<noteq> []"
    by (simp add: titlesNonEmpty_def list_all_iff)
  with assms(2) have "title (merge (notes m ! k) u now) \<noteq> []"
    by (cases "newTitle u") (simp_all add: merge_def)
  with assms(1) show ?thesis
    by (simp add: updateNote_def Some Let_def titlesNonEmpty_def titles_list_update)
qed

lemma titles_updateNoteTitle:
  assumes "titlesNonEmpty m"
  shows "titlesNonEmpty (fst (updateNoteTitle now i t m))"
proof (cases "findIndex (\<lambda>n. note_id n = i) (notes m)")
  case None
  with assms show ?thesis by (simp add: updateNoteTitle_def)
next
  case (Some k)
  with assms show ?thesis
    by (simp add: updateNoteTitle_def Let_def titlesNonEmpty_def titles_list_update)
qed

lemma titles_updateNoteTitleFromContent:
  assumes "titlesNonEmpty m"
  shows "titlesNonEmpty (updateNoteTitleFromContent now i c m)"
proof (cases "extractFirstLineAsTitle c = []")
  case True
  with assms show ?thesis
    by (simp add: updateNoteTitleFromContent_def titles_updateNote)
next
  case False
  then have "take 50 (extractFirstLineAsTitle c) \<noteq> []" by simp
  with assms False show ?thesis
    by (simp add: updateNoteTitleFromContent_def Let_def titles_updateNote)
qed

lemma titles_deleteNote:
  assumes "titlesNonEmpty m"
  shows "titlesNonEmpty (fst (deleteNote i m))"
proof (cases "findIndex (\<lambda>n. note_id n = i) (notes m)")
  case None
  with assms show ?thesis by (simp add: deleteNote_def)
next
  case (Some k)
  have "set (splice1 k (notes m)) \<subseteq> set (notes m)"
    using set_removeFirst_subset [of "\<lambda>n. note_id n = i" "notes m"]
    by (simp add: splice1_removeFirst [OF Some])
  with assms show ?thesis
    by (auto simp: deleteNote_def Some Let_def titlesNonEmpty_def list_all_iff)
qed

lemma titles_setActiveNote: "titlesNonEmpty m \<Longrightarrow> titlesNonEmpty (fst (setActiveNote i m))"
  by (simp add: setActiveNote_def titlesNonEmpty_def split: option.splits)

lemma titles_importTextContent:
  assumes "titlesNonEmpty m"
    and "case f of None \<Rightarrow> True | Some fn \<Rightarrow> fn = [] \<or> stripExtension fn \<noteq> []"
  shows "titlesNonEmpty (fst (importTextContent e c f m))"
  using assms
  by (auto simp: importTextContent_def Let_def titles_createNote split: option.splits)

lemma titles_applyOp:
  assumes "titlesNonEmpty m" and "givesTitle op"
  shows "titlesNonEmpty (applyOp op m)"
proof (cases op)
  case (CreateNote e t c)
  with assms show ?thesis by (simp add: givesTitle_def titles_createNote)
next
  case (UpdateNote now i u)
  with assms show ?thesis by (simp add: givesTitle_def titles_updateNote)
next
  case (UpdateNoteTitle now i t)
  with assms show ?thesis by (simp add: titles_updateNoteTitle)
next
  case (UpdateNoteTitleFromContent now i c)
  with assms show ?thesis by (simp add: titles_updateNoteTitleFromContent)
next
  case (DeleteNote i)
  with assms show ?thesis by (simp add: titles_deleteNote)
next
  case (SetActiveNote i)
  with assms show ?thesis by (simp add: titles_setActiveNote)
next
  case (ImportTextContent e c f)
  with assms show ?thesis by (simp add: givesTitle_def titles_importTextContent)
qed

lemma titles_runOps:
  "titlesNonEmpty m \<Longrightarrow> list_all givesTitle ops \<Longrightarrow> titlesNonEmpty (runOps ops m)"
  by (induction ops arbitrary: m) (auto simp: titles_applyOp)

lemma updateNoteTitle_blank:
  assumes "i \<in> set (noteIds m)" and "trim t = []"
  shows "map_option title (snd (updateNoteTitle now i t m)) = Some ''Untitled Note''"
proof -
  from assms(1) obtain k where k: "findIndex (\<lambda>n. note_id n = i) (notes m) = Some k"
    using findIndex_id_None_iff [of i m] by auto
  with assms(2) show ?thesis
    by (simp add: updateNoteTitle_def Let_def)
qed

text \<open>
  C1. Claimed: after every store operation every note has a non-empty title, an empty title
  being coerced to "Untitled Note" also when \<open>createNote\<close> is given one and when
  \<open>importTextContent\<close> derives the title from the file name. \<open>createNote\<close> and \<open>updateNote\<close>
  store the title they are given, so an empty one stays empty. What holds: from a collection
  whose titles are non-empty, the titles are non-empty after every sequence of operations
  none of which hands the store an empty title (a title given to \<open>createNote\<close> or carried by
  an update is not empty; a file name given to \<open>importTextContent\<close> is empty or has a
  non-empty part before its extension); \<open>updateNoteTitle\<close>, \<open>updateNoteTitleFromContent\<close>,
  \<open>deleteNote\<close> and \<open>setActiveNote\<close> need no condition. \<open>updateNoteTitle\<close> turns a title that
  is empty or white space into "Untitled Note", \<open>createNote\<close> without a title gives
  "Untitled Note", and \<open>importTextContent\<close> without a file name gives "Imported Note".
\<close>

theorem titles_stay_non_empty:
  "(titlesNonEmpty m \<and> list_all givesTitle ops \<longrightarrow> titlesNonEmpty (runOps ops m)) \<and>
   (i \<in> set (noteIds m) \<and> trim t = [] \<longrightarrow>
      map_option title (snd (updateNoteTitle now i t m)) = Some ''Untitled Note'') \<and>
   title (snd (createNote e None c m)) = ''Untitled Note'' \<and>
   title (snd (importTextContent e x None m)) = ''Imported Note''"
  by (simp add: titles_runOps updateNoteTitle_blank createNote_def importTextContent_def Let_def)

theorem titles_stay_non_empty_witness:
  "titlesNonEmpty twoNotes \<and>
   list_all givesTitle [UpdateNoteTitle 7 ''a'' ''  '', CreateNote exampleEnv None None, DeleteNote ''b''] \<and>
   titlesNonEmpty (runOps [UpdateNoteTitle 7 ''a'' ''  '', CreateNote exampleEnv None None, DeleteNote ''b''] twoNotes) \<and>
   ''a'' \<in> set (noteIds twoNotes) \<and> trim ''  '' = [] \<and>
   map_option title (snd (updateNoteTitle 7 ''a'' ''  '' twoNotes)) = Some ''Untitled Note''"
proof -
  have h1: "titlesNonEmpty twoNotes"
    by (simp add: titlesNonEmpty_def twoNotes_def noteA_def noteB_def)
  have h2: "list_all givesTitle [UpdateNoteTitle 7 ''a'' ''  '', CreateNote exampleEnv None None, DeleteNote ''b'']"
    by (simp add: givesTitle_def)
  have h3: "''a'' \<in> set (noteIds twoNotes)"
    by (simp add: noteIds_def twoNotes_def noteA_def noteB_def)
  have h4: "trim ''  '' = []"
    by (simp add: trim_def isWhiteSpace_def)
  from titles_stay_non_empty [of twoNotes "[UpdateNoteTitle 7 ''a'' ''  '', CreateNote exampleEnv None None, DeleteNote ''b'']" "''a''" "''  ''" 7]
    h1 h2 h3 h4
  show ?thesis by blast
qed

theorem titles_claim_counterexample:
  "titlesNonEmpty twoNotes \<and>
   \<not> titlesNonEmpty (runOps [CreateNote exampleEnv (Some []) None] twoNotes) \<and>
   \<not> titlesNonEmpty (runOps [UpdateNote 7 ''a'' \<lparr>newId = None, newTitle = Some [], newContent = None, newCreatedAt = None\<rparr>] twoNotes) \<and>
   \<not> titlesNonEmpty (runOps [ImportTextContent exampleEnv ''hello'' (Some ''.md'')] twoNotes)"
  by code_simp

section \<open>File upload\<close>

lemma endsWith_iff: "endsWith s e \<longleftrightarrow> (\<exists>p. s = p @ e)"
proof
  assume "endsWith s e"
  then have "take (length e) (rev s) = rev e" by (simp add: endsWith_def)
  then have "rev s = rev e @ drop (length e) (rev s)"
    using append_take_drop_id [of "length e" "rev s"] by simp
  then have "s = rev (drop (length e) (rev s)) @ e"
    using rev_swap [of s] by (metis rev_append rev_rev_ident)
  then show "\<exists>p. s = p @ e" by blast
next
  assume "\<exists>p. s = p @ e"
  then show "endsWith s e" by (auto simp: endsWith_def)
qed

text \<open>
  C9. Claimed: a file whose type is neither \<open>text/plain\<close> nor \<open>text/markdown\<close> and whose name
  ends in neither \<open>.txt\<close> nor \<open>.md\<close> is rejected. The check compares the name in lower case,
  so a name ending in \<open>.TXT\<close> passes. What holds: \<open>handleFileUpload\<close> rejects a file exactly
  when its type is neither of the two and its name in lower case ends in neither \<open>.txt\<close> nor
  \<open>.md\<close>; it then shows an error message and starts no read, so no import follows; every
  other file is handed to the reader. In both cases the store, the open note and the editor
  are as before. A file \<open>report.pdf\<close> of type \<open>application/pdf\<close> is rejected.
\<close>

theorem upload_check:
  "handleFileUpload (Some f) a =
     (if fileType f \<noteq> ''text/plain'' \<and> fileType f \<noteq> ''text/markdown'' \<and>
         \<not> endsWith (toLowerCase (fileName f)) ''.txt'' \<and>
         \<not> endsWith (toLowerCase (fileName f)) ''.md''
      then a\<lparr>events := events a @
             [ShowErrorMessage ''Please select a text file (.txt) or markdown file (.md).'']\<rparr>
      else a\<lparr>events := events a @ [ReadAsText f]\<rparr>) \<and>
   noteManager (handleFileUpload file a) = noteManager a \<and>
   currentNoteId (handleFileUpload file a) = currentNoteId a \<and>
   editor (handleFileUpload file a) = editor a \<and>
   handleFileUpload (Some pdfFile) a =
     a\<lparr>events := events a @
        [ShowErrorMessage ''Please select a text file (.txt) or markdown file (.md).'']\<rparr>"
proof -
  have pdf: "\<not> hasValidType pdfFile \<and> \<not> hasValidExtension pdfFile"
    by (simp add: hasValidType_def hasValidExtension_def allowedTypes_def allowedExtensions_def
          pdfFile_def endsWith_def toLowerCase_def toLowerChar_def)
  show ?thesis
    using pdf
    by (cases "file")
       (auto simp: handleFileUpload_def hasValidType_def hasValidExtension_def
          allowedTypes_def allowedExtensions_def)
qed

theorem upload_check_witness:
  "handleFileUpload (Some upperCaseFile) exampleApp = exampleApp\<lparr>events := [ReadAsText upperCaseFile]\<rparr> \<and>
   handleFileUpload (Some pdfFile) exampleApp =
     exampleApp\<lparr>events := [ShowErrorMessage ''Please select a text file (.txt) or markdown file (.md).'']\<rparr>"
proof -
  have l: "toLowerCase (fileName upperCaseFile) = ''notes.txt''"
    by code_simp
  have e: "events exampleApp = []" by (simp add: exampleApp_def)
  from upload_check [of upperCaseFile exampleApp] upload_check [of pdfFile exampleApp] l e
  show ?thesis by (simp add: endsWith_def)
qed

theorem upload_claim_counterexample:
  "fileType upperCaseFile \<noteq> ''text/plain'' \<and> fileType upperCaseFile \<noteq> ''text/markdown'' \<and>
   \<not> endsWith (fileName upperCaseFile) ''.txt'' \<and> \<not> endsWith (fileName upperCaseFile) ''.md'' \<and>
   handleFileUpload (Some upperCaseFile) exampleApp = exampleApp\<lparr>events := [ReadAsText upperCaseFile]\<rparr>"
  by code_simp

section \<open>Switching and deleting in the coordinator\<close>

lemma find_list_update_first:
  "findIndex P xs = Some k \<Longrightarrow> P v \<Longrightarrow> find P (xs[k := v]) = Some v"
proof (induction xs arbitrary: k)
  case Nil
  then show ?case by simp
next
  case (Cons x xs)
  show ?case
  proof (cases "P x")
    case True
    with Cons.prems show ?thesis by simp
  next
    case False
    with Cons.prems obtain k' where k': "findIndex P xs = Some k'" "k = Suc k'"
      by auto
    from Cons.IH [OF k'(1) Cons.prems(2)] False k'(2) show ?thesis by simp
  qed
qed

lemma find_removeFirst_other:
  "(\<And>y. Q y \<Longrightarrow> \<not> P y) \<Longrightarrow> find Q (removeFirst P xs) = find Q xs"
  by (induction xs) auto

lemma updateNote_content:
  assumes "i \<in> set (noteIds m)"
  shows "map_option content (getNoteById i (fst (updateNote now i \<lparr>newId = None, newTitle = t, newContent = Some c, newCreatedAt = None\<rparr> m)))
           = Some c"
proof -
  from assms obtain k where k: "findIndex (\<lambda>n. note_id n = i) (notes m) = Some k"
    using findIndex_id_None_iff [of i m] by auto
  from findIndex_Some_props [OF k] have idk: "note_id (notes m ! k) = i" by simp
  let ?n = "merge (notes m ! k) \<lparr>newId = None, newTitle = t, newContent = Some c, newCreatedAt = None\<rparr> now"
  have "note_id ?n = i" using idk by (simp add: merge_def)
  from find_list_update_first [OF k this]
  have "find (\<lambda>n. note_id n = i) ((notes m)[k := ?n]) = Some ?n" .
  then show ?thesis
    by (simp add: updateNote_def k Let_def getNoteById_def merge_def)
qed

lemma updateNote_persisted:
  assumes "i \<in> set (noteIds m)" and "writable (storage m)"
  shows "persisted (fst (updateNote now i u m))"
proof -
  from assms(1) obtain k where k: "findIndex (\<lambda>n. note_id n = i) (notes m) = Some k"
    using findIndex_id_None_iff [of i m] by auto
  with assms(2) show ?thesis
    by (simp add: updateNote_def Let_def persisted_save)
qed

lemma fromContent_as_update:
  "\<exists>t. updateNoteTitleFromContent now i c m =
        fst (updateNote now i \<lparr>newId = None, newTitle = t, newContent = Some c, newCreatedAt = None\<rparr> m)"
  by (cases "extractFirstLineAsTitle c = []")
     (auto simp: updateNoteTitleFromContent_def Let_def)

lemma fromContent_content:
  assumes "i \<in> set (noteIds m)"
  shows "map_option content (getNoteById i (updateNoteTitleFromContent now i c m)) = Some c"
proof -
  from fromContent_as_update obtain t where
    "updateNoteTitleFromContent now i c m = fst (updateNote now i \<lparr>newId = None, newTitle = t, newContent = Some c, newCreatedAt = None\<rparr> m)"
    by blast
  then show ?thesis
    using updateNote_content [OF assms, of now t c] by (simp only:)
qed

lemma fromContent_persisted:
  "i \<in> set (noteIds m) \<Longrightarrow> writable (storage m) \<Longrightarrow>
   persisted (updateNoteTitleFromContent now i c m)"
  by (simp add: updateNoteTitleFromContent_def Let_def updateNote_persisted)

lemma setActiveNote_existing:
  "i \<in> set (noteIds m) \<Longrightarrow> fst (setActiveNote i m) = m\<lparr>activeNoteId := Some i\<rparr>"
  using getNoteById_None_iff [of i m] by (auto simp: setActiveNote_def split: option.splits)

lemma switchToNote_unfold:
  assumes b: "getNoteById b (noteManager a) = Some nb"
    and cur: "currentNoteId a = Some cur" "cur \<noteq> []" "cur \<noteq> b"
  shows "switchToNote now b a =
     a\<lparr>noteManager := (updateNoteTitleFromContent now cur (editor a) (noteManager a))\<lparr>activeNoteId := Some b\<rparr>,
       currentNoteId := Some b,
       editor := content nb,
       events := events a @ [SavedNote cur (editor a), SetContent (content nb)]\<rparr>"
proof -
  from b have "b \<in> set (noteIds (noteManager a))"
    using getNoteById_None_iff [of b "noteManager a"] by auto
  then have "b \<in> set (noteIds (updateNoteTitleFromContent now cur (editor a) (noteManager a)))"
    by simp
  from setActiveNote_existing [OF this] b cur show ?thesis
    by (simp add: switchToNote_def saveCurrentNote_def truthy_def Let_def)
qed

lemma deleteNoteApp_other:
  assumes "currentNoteId a = Some cur" and "x \<noteq> cur"
  shows "deleteNoteApp e x a =
     a\<lparr>noteManager := fst (deleteNote x (noteManager a)),
       events := events a @
         [if x \<in> set (noteIds (noteManager a)) then ShowToast ''Note deleted successfully!''
          else ShowErrorMessage ''Failed to delete note.'']\<rparr>"
proof (cases "x \<in> set (noteIds (noteManager a))")
  case True
  then obtain k where k: "findIndex (\<lambda>n. note_id n = x) (notes (noteManager a)) = Some k"
    using findIndex_id_None_iff [of x "noteManager a"] by auto
  with assms True show ?thesis
    by (simp add: deleteNoteApp_def deleteNote_def Let_def)
next
  case False
  then have "findIndex (\<lambda>n. note_id n = x) (notes (noteManager a)) = None"
    by (simp add: findIndex_id_None_iff)
  with assms False show ?thesis
    by (simp add: deleteNoteApp_def deleteNote_def Let_def)
qed

lemma getNoteById_deleteNote_other:
  assumes "x \<noteq> cur"
  shows "getNoteById cur (fst (deleteNote x m)) = getNoteById cur m"
proof (cases "findIndex (\<lambda>n. note_id n = x) (notes m)")
  case None
  then show ?thesis by (simp add: deleteNote_def)
next
  case (Some k)
  have "find (\<lambda>n. note_id n = cur) (removeFirst (\<lambda>n. note_id n = x) (notes m)) =
        find (\<lambda>n. note_id n = cur) (notes m)"
    using assms by (intro find_removeFirst_other) auto
  then show ?thesis
    by (simp add: deleteNote_def Some Let_def getNoteById_def splice1_removeFirst [OF Some])
qed




section \<open>Import and export\<close>

lemma escapeHtml_plain: "list_all (\<lambda>c. \<not> markupSignificant c) l \<Longrightarrow> escapeHtml l = l"
  by (induction l) (auto simp: escapeHtml_def escapeChar_def markupSignificant_def)

lemma set_trim_subset: "set (trim l) \<subseteq> set l"
proof -
  have "set (trim l) \<subseteq> set (dropWhile isWhiteSpace l)"
    using set_dropWhileD [of _ isWhiteSpace "rev (dropWhile isWhiteSpace l)"]
    by (auto simp: trim_def)
  also have "\<dots> \<subseteq> set l"
    using set_dropWhileD [of _ isWhiteSpace l] by auto
  finally show ?thesis .
qed

lemma splitChar_not_Nil [simp]: "splitChar d s \<noteq> []"
  by (induction s) (auto split: list.splits)

lemma set_splitChar_subset: "l \<in> set (splitChar d s) \<Longrightarrow> set l \<subseteq> set s"
proof (induction s arbitrary: l)
  case Nil
  then show ?case by simp
next
  case (Cons c cs)
  show ?case
  proof (cases "c = d")
    case True
    with Cons show ?thesis by auto
  next
    case False
    obtain x xs where sp: "splitChar d cs = x # xs"
      by (cases "splitChar d cs") auto
    with Cons.prems False have "l = c # x \<or> l \<in> set xs" by simp
    with Cons.IH [of x] Cons.IH [of l] sp show ?thesis by auto
  qed
qed

lemma decodeFrom_plain: "CHR ''&'' \<notin> set s \<Longrightarrow> decodeFrom 0 s = s"
  by (induction s) auto

lemma decodeReferences_plain: "CHR ''&'' \<notin> set s \<Longrightarrow> decodeReferences s = s"
  by (simp add: decodeReferences_def decodeFrom_plain)

lemma decodeReferences_Nil [simp]: "decodeReferences [] = []"
  by (simp add: decodeReferences_def)

lemma textContent_examples:
  "textContent ''<p>Hello <b>world</b>.</p>'' = ''Hello world.'' \<and>
   textContent ''<p>a &amp; b &lt;c&gt;</p>'' = ''a & b <c>'' \<and>
   textContent ''x &amp;lt; y &copy; z & w'' = ''x &lt; y &copy; z & w'' \<and>
   textContent (''<p>'' @ escapeHtml ''1 < 2 & 3 > 2'' @ ''</p>'') = ''1 < 2 & 3 > 2''"
  by code_simp

lemma stripFrom_plain_prefix:
  "CHR ''<'' \<notin> set l \<Longrightarrow> stripFrom False (l @ r) = l @ stripFrom False r"
  by (induction l) auto

lemma stripFrom_paragraph:
  assumes "CHR ''<'' \<notin> set l"
  shows "stripFrom False (''<p>'' @ l @ ''</p>'' @ r) = l @ stripFrom False r"
proof -
  have "stripFrom False (''<p>'' @ l @ ''</p>'' @ r) = stripFrom False (l @ ''</p>'' @ r)"
    by simp
  also have "\<dots> = l @ stripFrom False (''</p>'' @ r)"
    by (rule stripFrom_plain_prefix [OF assms])
  also have "\<dots> = l @ stripFrom False r"
    by simp
  finally show ?thesis .
qed

lemma stripFrom_paragraphs:
  "list_all (\<lambda>l. CHR ''<'' \<notin> set l) ls \<Longrightarrow>
   stripFrom False (concat (map (\<lambda>l. ''<p>'' @ l @ ''</p>'') ls)) = concat ls"
proof (induction ls)
  case Nil
  then show ?case by simp
next
  case (Cons l ls)
  then have l: "CHR ''<'' \<notin> set l" and ih: "stripFrom False (concat (map (\<lambda>l. ''<p>'' @ l @ ''</p>'') ls)) = concat ls"
    by simp_all
  have "stripFrom False (''<p>'' @ l @ ''</p>'' @ concat (map (\<lambda>l. ''<p>'' @ l @ ''</p>'') ls))
        = l @ concat ls"
    by (simp only: stripFrom_paragraph [OF l] ih)
  then show ?case by simp
qed

lemma textContent_paragraphs:
  assumes "list_all (\<lambda>l. CHR ''<'' \<notin> set l \<and> CHR ''&'' \<notin> set l) ls"
  shows "textContent (concat (map (\<lambda>l. ''<p>'' @ l @ ''</p>'') ls)) = concat ls"
proof -
  from assms have "list_all (\<lambda>l. CHR ''<'' \<notin> set l) ls"
    by (simp add: list_all_iff)
  then have "stripFrom False (concat (map (\<lambda>l. ''<p>'' @ l @ ''</p>'') ls)) = concat ls"
    by (rule stripFrom_paragraphs)
  moreover from assms have "CHR ''&'' \<notin> set (concat ls)"
    by (auto simp: list_all_iff)
  ultimately show ?thesis
    by (simp add: textContent_def decodeReferences_plain)
qed

lemma plainLines_plain:
  assumes "list_all (\<lambda>c. \<not> markupSignificant c) s"
  shows "list_all (list_all (\<lambda>c. \<not> markupSignificant c)) (plainLines s)"
proof -
  have "list_all (\<lambda>c. \<not> markupSignificant c) (trim l)" if "l \<in> set (splitChar CHR 0x0A s)" for l
    using that assms set_splitChar_subset [of l "CHR 0x0A" s] set_trim_subset [of l]
    by (auto simp: list_all_iff)
  then show ?thesis
    by (auto simp: plainLines_def list_all_iff)
qed

lemma paragraphs_plain:
  assumes "list_all (\<lambda>c. \<not> markupSignificant c) s"
  shows "paragraphs s = concat (map (\<lambda>l. ''<p>'' @ l @ ''</p>'') (plainLines s))"
proof -
  have m: "map (\<lambda>l. ''<p>'' @ escapeHtml l @ ''</p>'') (plainLines s) =
        map (\<lambda>l. ''<p>'' @ l @ ''</p>'') (plainLines s)"
  proof (rule map_cong [OF refl])
    fix l assume "l \<in> set (plainLines s)"
    with plainLines_plain [OF assms] have "escapeHtml l = l"
      by (simp add: list_all_iff escapeHtml_plain)
    then show "''<p>'' @ escapeHtml l @ ''</p>'' = ''<p>'' @ l @ ''</p>''" by simp
  qed
  have f: "filter (\<lambda>line. length line > 0) (map trim (splitChar CHR 0x0A s)) = plainLines s"
    by (simp add: plainLines_def)
  show ?thesis
    by (simp only: paragraphs_def f m)
qed

lemma textContent_import:
  assumes "list_all (\<lambda>c. \<not> markupSignificant c) s"
  shows "textContent (if paragraphs s \<noteq> [] then paragraphs s else ''<p></p>'') = concat (plainLines s)"
proof (cases "plainLines s")
  case Nil
  then have "paragraphs s = []"
    by (simp add: paragraphs_plain [OF assms])
  with Nil show ?thesis
    by (simp add: textContent_def)
next
  case (Cons l ls)
  have lt: "list_all (\<lambda>l. CHR ''<'' \<notin> set l \<and> CHR ''&'' \<notin> set l) (plainLines s)"
    using plainLines_plain [OF assms] by (auto simp: list_all_iff markupSignificant_def)
  from Cons have "paragraphs s \<noteq> []"
    by (simp add: paragraphs_plain [OF assms])
  then have "textContent (if paragraphs s \<noteq> [] then paragraphs s else ''<p></p>'') =
             textContent (paragraphs s)"
    by simp
  also have "\<dots> = concat (plainLines s)"
    by (simp only: paragraphs_plain [OF assms] textContent_paragraphs [OF lt])
  finally show ?thesis .
qed

lemma splitChar_no_separator: "d \<notin> set s \<Longrightarrow> splitChar d s = [s]"
  by (induction s) auto

lemma plainLines_one_line:
  "CHR 0x0A \<notin> set s \<Longrightarrow> trim s = s \<Longrightarrow> concat (plainLines s) = s"
  by (simp add: plainLines_def splitChar_no_separator)

text \<open>
  C3. Claimed: for a plain text without markup-significant characters, \<open>importTextContent\<close>
  followed by \<open>exportNoteAsText\<close> on the new note gives the text back. The import keeps no
  line break, no blank line and no white space around a line, and the export puts none back.
  What holds (with the rendering engine removing the tags): for a text without the
  characters \<open>&\<close>, \<open><\<close>, \<open>>\<close> and no-break space, the exported content is the
  concatenation, without separators, of the non-blank lines of the text, each without its
  surrounding white space; it is the text itself when the text is one line without
  surrounding white space.
\<close>

theorem import_then_export:
  assumes "list_all (\<lambda>c. \<not> markupSignificant c) s"
  shows "map_option exContent
           (exportNoteAsText textContent (note_id (snd (importTextContent e s f m)))
              (fst (importTextContent e s f m))) = Some (concat (plainLines s)) \<and>
         (CHR 0x0A \<notin> set s \<and> trim s = s \<longrightarrow>
            map_option exContent
              (exportNoteAsText textContent (note_id (snd (importTextContent e s f m)))
                 (fst (importTextContent e s f m))) = Some s)"
proof -
  have "map_option exContent
           (exportNoteAsText textContent (note_id (snd (importTextContent e s f m)))
              (fst (importTextContent e s f m)))
        = Some (textContent (if paragraphs s \<noteq> [] then paragraphs s else ''<p></p>''))"
    by (simp add: importTextContent_def createNote_def Let_def exportNoteAsText_def getNoteById_def)
  then have "map_option exContent
           (exportNoteAsText textContent (note_id (snd (importTextContent e s f m)))
              (fst (importTextContent e s f m))) = Some (concat (plainLines s))"
    by (simp only: textContent_import [OF assms])
  then show ?thesis
    by (auto simp: plainLines_one_line)
qed

theorem import_then_export_witness:
  "list_all (\<lambda>c. \<not> markupSignificant c) ''hello world'' \<and>
   CHR 0x0A \<notin> set ''hello world'' \<and> trim ''hello world'' = ''hello world'' \<and>
   map_option exContent
     (exportNoteAsText textContent (note_id (snd (importTextContent exampleEnv ''hello world'' (Some ''n.txt'') twoNotes)))
        (fst (importTextContent exampleEnv ''hello world'' (Some ''n.txt'') twoNotes))) = Some ''hello world''"
proof -
  have h1: "list_all (\<lambda>c. \<not> markupSignificant c) ''hello world''"
    by (simp add: markupSignificant_def)
  have h2: "CHR 0x0A \<notin> set ''hello world''" by simp
  have h3: "trim ''hello world'' = ''hello world''"
    by (simp add: trim_def isWhiteSpace_def)
  from import_then_export [OF h1, of exampleEnv "Some ''n.txt''" twoNotes] h1 h2 h3
  show ?thesis by blast
qed

theorem roundtrip_claim_counterexample:
  "list_all (\<lambda>c. \<not> markupSignificant c) ''a\<newline>b'' \<and>
   map_option exContent
     (exportNoteAsText textContent (note_id (snd (importTextContent exampleEnv ''a\<newline>b'' (Some ''n.txt'') twoNotes)))
        (fst (importTextContent exampleEnv ''a\<newline>b'' (Some ''n.txt'') twoNotes))) = Some ''ab'' \<and>
   list_all (\<lambda>c. \<not> markupSignificant c) '' hello '' \<and>
   map_option exContent
     (exportNoteAsText textContent (note_id (snd (importTextContent exampleEnv '' hello '' (Some ''n.txt'') twoNotes)))
        (fst (importTextContent exampleEnv '' hello '' (Some ''n.txt'') twoNotes))) = Some ''hello''"
  by code_simp

section \<open>The title taken from the content\<close>

lemma trim_parts: "trim s = trimEnd (trimStart s)"
  by (simp add: trim_def trimEnd_def trimStart_def)

lemma trimEnd_Nil_iff: "trimEnd s = [] \<longleftrightarrow> blank s"
  by (simp add: trimEnd_def blank_def list_all_iff)

lemma trimEnd_Cons: "trimEnd (c # cs) = (if blank (c # cs) then [] else c # trimEnd cs)"
proof (cases "blank cs")
  case True
  then show ?thesis
    by (auto simp: trimEnd_def blank_def list_all_iff dropWhile_append)
next
  case False
  then show ?thesis
    by (auto simp: trimEnd_def blank_def list_all_iff dropWhile_append)
qed

lemma blank_trimStart: "blank (trimStart s) \<longleftrightarrow> blank s"
proof
  assume b: "blank (trimStart s)"
  have "s = takeWhile isWhiteSpace s @ trimStart s"
    by (simp add: trimStart_def)
  then have "set s = set (takeWhile isWhiteSpace s) \<union> set (trimStart s)"
    by (metis set_append)
  with b show "blank s"
    by (auto simp: blank_def list_all_iff dest: set_takeWhileD)
next
  assume "blank s"
  then show "blank (trimStart s)"
    by (auto simp: blank_def list_all_iff trimStart_def dest: set_dropWhileD)
qed

lemma trim_Nil_iff: "trim s = [] \<longleftrightarrow> blank s"
  by (simp add: trim_parts trimEnd_Nil_iff blank_trimStart)

lemma trim_white_Cons: "isWhiteSpace c \<Longrightarrow> trim (c # cs) = trim cs"
  by (simp add: trim_def)

lemma trim_black_Cons: "\<not> isWhiteSpace c \<Longrightarrow> trim (c # cs) = trimEnd (c # cs)"
  by (simp add: trim_parts trimStart_def)

lemma blank_takeWhile: "blank s \<Longrightarrow> blank (takeWhile P s)"
  by (auto simp: blank_def list_all_iff dest: set_takeWhileD)

lemma trimEnd_takeWhile:
  "trimEnd (takeWhile P (trimEnd s)) = trimEnd (takeWhile P s)"
proof (induction s)
  case Nil
  then show ?case by (simp add: trimEnd_def)
next
  case (Cons c cs)
  show ?case
  proof (cases "blank (c # cs)")
    case True
    then have a: "trimEnd (c # cs) = []" by (simp add: trimEnd_Nil_iff)
    have b: "trimEnd (takeWhile P (c # cs)) = []"
      using blank_takeWhile [OF True] by (simp only: trimEnd_Nil_iff)
    have "trimEnd (takeWhile P []) = []" by (simp add: trimEnd_def)
    then show ?thesis by (simp only: a b)
  next
    case nb: False
    then have te: "trimEnd (c # cs) = c # trimEnd cs" by (simp add: trimEnd_Cons)
    show ?thesis
    proof (cases "P c")
      case True
      have b: "blank (takeWhile P (trimEnd cs)) \<longleftrightarrow> blank (takeWhile P cs)"
        using Cons.IH by (metis trimEnd_Nil_iff)
      have "blank (c # takeWhile P (trimEnd cs)) \<longleftrightarrow> blank (c # takeWhile P cs)"
        using b by (simp add: blank_def)
      with True Cons.IH nb show ?thesis
        by (simp add: trimEnd_Cons)
    next
      case False
      then show ?thesis by (simp add: te)
    qed
  qed
qed

lemma splitChar_head:
  "(case splitChar d s of [] \<Rightarrow> [] | l # _ \<Rightarrow> l) = takeWhile (\<lambda>c. c \<noteq> d) s"
  by (induction s) (auto split: list.splits)

lemma firstNonBlankLine_trim:
  "(blank s \<longrightarrow> firstNonBlankLine s = None) \<and>
   (\<not> blank s \<longrightarrow> (\<exists>l. firstNonBlankLine s = Some l \<and> \<not> blank l \<and>
        trim l = trim (takeWhile (\<lambda>c. c \<noteq> CHR 0x0A) (trim s))))"
proof (induction s)
  case Nil
  then show ?case by (simp add: firstNonBlankLine_def blank_def)
next
  case (Cons c cs)
  let ?nl = "CHR 0x0A"
  let ?P = "\<lambda>c. c \<noteq> ?nl"
  have wnl: "isWhiteSpace ?nl" by (simp add: isWhiteSpace_def)
  show ?case
  proof (cases "c = ?nl")
    case True
    have "firstNonBlankLine (c # cs) = firstNonBlankLine cs"
      using True by (simp add: firstNonBlankLine_def blank_def)
    moreover have "blank (c # cs) \<longleftrightarrow> blank cs"
      using True wnl by (simp add: blank_def)
    moreover have "trim (c # cs) = trim cs"
      using True wnl by (simp add: trim_white_Cons)
    ultimately show ?thesis using Cons.IH by simp
  next
    case False
    obtain x xs where sp: "splitChar ?nl cs = x # xs"
      by (cases "splitChar ?nl cs") auto
    have x: "x = takeWhile ?P cs"
      using splitChar_head [of ?nl cs] sp by simp
    have spc: "splitChar ?nl (c # cs) = (c # x) # xs"
      using False sp by simp
    have fc: "firstNonBlankLine (c # cs) = find (\<lambda>l. \<not> blank l) ((c # x) # xs)"
      by (simp only: firstNonBlankLine_def spc)
    have fcs: "firstNonBlankLine cs = find (\<lambda>l. \<not> blank l) (x # xs)"
      by (simp only: firstNonBlankLine_def sp)
    have bcx: "blank (c # x) \<longleftrightarrow> isWhiteSpace c \<and> blank x"
      by (simp add: blank_def)
    show ?thesis
    proof (cases "isWhiteSpace c")
      case True
      have bl: "blank (c # cs) \<longleftrightarrow> blank cs"
        using True by (simp add: blank_def)
      have tr: "trim (c # cs) = trim cs"
        using True by (simp add: trim_white_Cons)
      show ?thesis
      proof (cases "blank x")
        case True
        have "firstNonBlankLine (c # cs) = firstNonBlankLine cs"
          using True \<open>isWhiteSpace c\<close> by (simp add: fc fcs bcx)
        with bl tr Cons.IH show ?thesis by simp
      next
        case False
        have f1: "firstNonBlankLine (c # cs) = Some (c # x)"
          using False by (simp add: fc bcx)
        have f2: "firstNonBlankLine cs = Some x"
          using False by (simp add: fcs)
        have nb: "\<not> blank cs"
          using Cons.IH f2 by auto
        with Cons.IH f2 have "trim x = trim (takeWhile ?P (trim cs))" by auto
        moreover have "trim (c # x) = trim x"
          using True by (simp add: trim_white_Cons)
        moreover have "\<not> blank (c # x)"
          using False by (simp add: bcx)
        ultimately show ?thesis
          using f1 bl tr nb by simp
      qed
    next
      case black: False
      have nb: "\<not> blank (c # cs)" "\<not> blank (c # x)"
        using black by (simp_all add: blank_def)
      have f1: "firstNonBlankLine (c # cs) = Some (c # x)"
        using nb by (simp add: fc)
      have cx: "c # x = takeWhile ?P (c # cs)"
        using False x by simp
      have t1: "trim (c # cs) = c # trimEnd cs"
        using black nb by (simp add: trim_black_Cons trimEnd_Cons)
      have "trim (takeWhile ?P (trim (c # cs))) = trim (c # takeWhile ?P (trimEnd cs))"
        using False by (simp add: t1)
      also have "\<dots> = trimEnd (c # takeWhile ?P (trimEnd cs))"
        using black by (simp add: trim_black_Cons)
      also have "\<dots> = trimEnd (takeWhile ?P (trimEnd (c # cs)))"
        using False nb by (simp add: trimEnd_Cons)
      also have "\<dots> = trimEnd (takeWhile ?P (c # cs))"
        by (rule trimEnd_takeWhile)
      also have "\<dots> = trim (c # x)"
        by (simp only: cx [symmetric] trim_black_Cons [OF black])
      finally have "trim (c # x) = trim (takeWhile ?P (trim (c # cs)))" by simp
      with f1 nb show ?thesis by simp
    qed
  qed
qed

lemma extractFirstLineAsTitle_eq:
  "extractFirstLineAsTitle c =
     (case firstNonBlankLine (removeTags c) of None \<Rightarrow> [] | Some l \<Rightarrow> trim l)"
proof (cases "blank (removeTags c)")
  case True
  with firstNonBlankLine_trim [of "removeTags c"] have "firstNonBlankLine (removeTags c) = None"
    by simp
  moreover from True have "trim (removeTags c) = []" by (simp add: trim_Nil_iff)
  ultimately show ?thesis by (simp add: extractFirstLineAsTitle_def)
next
  case False
  with firstNonBlankLine_trim [of "removeTags c"] obtain l where
    l: "firstNonBlankLine (removeTags c) = Some l" "\<not> blank l"
       "trim l = trim (takeWhile (\<lambda>c. c \<noteq> CHR 0x0A) (trim (removeTags c)))"
    by auto
  from False have ne: "trim (removeTags c) \<noteq> []" by (simp add: trim_Nil_iff)
  from False have cne: "c \<noteq> []" by (auto simp: removeTags_def blank_def)
  from l(2) have tl: "trim l \<noteq> []" by (simp add: trim_Nil_iff)
  show ?thesis
    using ne cne tl l(1) l(3) [symmetric]
    by (simp add: extractFirstLineAsTitle_def Let_def splitChar_head)
qed


lemma getNoteById_updateNote:
  assumes "getNoteById i m = Some n" and "newId u = None"
  shows "getNoteById i (fst (updateNote now i u m)) = Some (merge n u now)"
proof -
  from assms obtain k where k: "findIndex (\<lambda>n. note_id n = i) (notes m) = Some k"
    and n: "notes m ! k = n"
    by (auto simp: getNoteById_def find_findIndex)
  from findIndex_Some_props [OF k] n have "note_id n = i" by simp
  with assms(2) have "note_id (merge n u now) = i" by (simp add: merge_def)
  from find_list_update_first [OF k this] show ?thesis
    by (simp add: updateNote_def k n Let_def getNoteById_def)
qed

lemma firstNonBlankLine_None_iff: "firstNonBlankLine s = None \<longleftrightarrow> blank s"
  using firstNonBlankLine_trim [of s] by auto

lemma truncateTitle_eq:
  "take 50 l @ (if length l > 50 then ''...'' else []) = truncateTitle l"
  by (simp add: truncateTitle_def)

lemma updateNoteTitleFromContent_note:
  assumes "getNoteById i m = Some n"
  shows "getNoteById i (updateNoteTitleFromContent now i c m) =
     Some (n\<lparr>title := (case firstNonBlankLine (removeTags c) of
                         None \<Rightarrow> title n
                       | Some l \<Rightarrow> truncateTitle (trim l)),
             content := c, updatedAt := now\<rparr>)"
proof (cases "firstNonBlankLine (removeTags c)")
  case None
  then have "extractFirstLineAsTitle c = []"
    by (simp add: extractFirstLineAsTitle_eq)
  then have "updateNoteTitleFromContent now i c m =
             fst (updateNote now i \<lparr>newId = None, newTitle = None, newContent = Some c, newCreatedAt = None\<rparr> m)"
    by (simp add: updateNoteTitleFromContent_def)
  with getNoteById_updateNote [OF assms, of "\<lparr>newId = None, newTitle = None, newContent = Some c, newCreatedAt = None\<rparr>" now] None
  show ?thesis by (simp add: merge_def)
next
  case (Some l)
  then have "\<not> blank l"
    using firstNonBlankLine_trim [of "removeTags c"] by (cases "blank (removeTags c)") auto
  then have tl: "trim l \<noteq> []" by (simp add: trim_Nil_iff)
  have e: "extractFirstLineAsTitle c = trim l"
    by (simp add: extractFirstLineAsTitle_eq Some)
  have "updateNoteTitleFromContent now i c m =
        fst (updateNote now i \<lparr>newId = None, newTitle = Some (truncateTitle (trim l)), newContent = Some c, newCreatedAt = None\<rparr> m)"
    using tl by (simp only: updateNoteTitleFromContent_def e Let_def truncateTitle_eq) simp
  with getNoteById_updateNote [OF assms, of "\<lparr>newId = None, newTitle = Some (truncateTitle (trim l)), newContent = Some c, newCreatedAt = None\<rparr>" now] Some
  show ?thesis by (simp add: merge_def)
qed




section \<open>Statistics\<close>

lemma tokens_Cons:
  "tokens P (c # cs) =
     (if P c then tokens P cs
      else (c # takeWhile (\<lambda>x. \<not> P x) cs) # tokens P (dropWhile (\<lambda>x. \<not> P x) cs))"
proof (cases "P c")
  case True
  then have "tokens P (c # cs) =
     (case dropWhile P cs of [] \<Rightarrow> []
      | d # ds \<Rightarrow> (d # takeWhile (\<lambda>x. \<not> P x) ds) # tokens P (dropWhile (\<lambda>x. \<not> P x) ds))"
    by (simp add: tokens.simps [of P "c # cs"])
  also have "\<dots> = tokens P cs"
    by (simp add: tokens.simps [of P cs])
  finally show ?thesis using True by simp
next
  case False
  then show ?thesis by (simp add: tokens.simps [of P "c # cs"])
qed

lemma tokens_Nil [simp]: "tokens P [] = []"
  by (simp add: tokens.simps [of P "[]"])

lemma splitRuns_Cons:
  "splitRuns P (c # cs) =
     (if P c then (if cs \<noteq> [] \<and> P (hd cs) then splitRuns P cs else [] # splitRuns P cs)
      else (case splitRuns P cs of [] \<Rightarrow> [[c]] | x # xs \<Rightarrow> (c # x) # xs))"
  by (cases cs) simp_all

declare splitRuns.simps(2) [simp del]

lemma splitRuns_not_Nil [simp]: "splitRuns P s \<noteq> []"
proof (induction s)
  case Nil
  then show ?case by simp
next
  case (Cons c cs)
  then show ?case
    by (cases "splitRuns P cs") (simp_all add: splitRuns_Cons)
qed

lemma splitRuns_head: "hd (splitRuns P s) = takeWhile (\<lambda>x. \<not> P x) s"
proof (induction s)
  case Nil
  then show ?case by simp
next
  case (Cons c cs)
  obtain x xs where sp: "splitRuns P cs = x # xs"
    by (cases "splitRuns P cs") auto
  show ?case
  proof (cases "P c")
    case False
    then have "splitRuns P (c # cs) = (c # x) # xs" by (simp add: splitRuns_Cons sp)
    with Cons.IH sp False show ?thesis by simp
  next
    case True
    show ?thesis
    proof (cases "cs \<noteq> [] \<and> P (hd cs)")
      case pd: True
      then have "takeWhile (\<lambda>x. \<not> P x) cs = []" by (cases cs) simp_all
      moreover have "splitRuns P (c # cs) = splitRuns P cs"
        using True pd by (simp add: splitRuns_Cons)
      ultimately show ?thesis using Cons.IH True by simp
    next
      case False
      then have "splitRuns P (c # cs) = [] # splitRuns P cs"
        using True by (simp add: splitRuns_Cons)
      with True show ?thesis by simp
    qed
  qed
qed

lemma splitRuns_tokens:
  "filter (\<lambda>p. p \<noteq> []) (splitRuns P s) = tokens P s \<and>
   filter (\<lambda>p. p \<noteq> []) (tl (splitRuns P s)) = tokens P (dropWhile (\<lambda>x. \<not> P x) s)"
proof (induction s)
  case Nil
  then show ?case by simp
next
  case (Cons c cs)
  obtain x xs where sp: "splitRuns P cs = x # xs"
    by (cases "splitRuns P cs") auto
  have x: "x = takeWhile (\<lambda>x. \<not> P x) cs"
    using splitRuns_head [of P cs] sp by simp
  from Cons.IH sp have m: "filter (\<lambda>p. p \<noteq> []) (x # xs) = tokens P cs"
    and t: "filter (\<lambda>p. p \<noteq> []) xs = tokens P (dropWhile (\<lambda>x. \<not> P x) cs)"
    by simp_all
  show ?case
  proof (cases "P c")
    case False
    then have "splitRuns P (c # cs) = (c # x) # xs" by (simp add: splitRuns_Cons sp)
    then have "filter (\<lambda>p. p \<noteq> []) (splitRuns P (c # cs)) = (c # x) # filter (\<lambda>p. p \<noteq> []) xs"
      and "filter (\<lambda>p. p \<noteq> []) (tl (splitRuns P (c # cs))) = filter (\<lambda>p. p \<noteq> []) xs"
      by simp_all
    moreover have "tokens P (c # cs) = (c # x) # tokens P (dropWhile (\<lambda>x. \<not> P x) cs)"
      using False by (simp only: tokens_Cons x if_False)
    moreover have "dropWhile (\<lambda>x. \<not> P x) (c # cs) = dropWhile (\<lambda>x. \<not> P x) cs"
      using False by simp
    ultimately show ?thesis by (simp add: t)
  next
    case True
    have tk: "tokens P (c # cs) = tokens P cs"
      using True by (simp only: tokens_Cons if_True)
    have dw: "dropWhile (\<lambda>x. \<not> P x) (c # cs) = c # cs"
      using True by simp
    show ?thesis
    proof (cases "cs \<noteq> [] \<and> P (hd cs)")
      case pd: True
      then have "splitRuns P (c # cs) = x # xs"
        using True sp by (simp add: splitRuns_Cons)
      moreover have "dropWhile (\<lambda>x. \<not> P x) cs = cs"
        using pd by (cases cs) simp_all
      ultimately show ?thesis
        using m t True by (simp add: tk)
    next
      case npd: False
      then have "splitRuns P (c # cs) = [] # x # xs"
        using True sp by (simp add: splitRuns_Cons)
      then show ?thesis
        using m True by (simp add: tk)
    qed
  qed
qed

lemma splitRuns_no_empty_tail:
  "s \<noteq> [] \<Longrightarrow> \<not> P (last s) \<Longrightarrow> [] \<notin> set (tl (splitRuns P s))"
proof (induction s)
  case Nil
  then show ?case by simp
next
  case (Cons c cs)
  show ?case
  proof (cases "cs = []")
    case True
    with Cons.prems show ?thesis by (simp add: splitRuns_Cons)
  next
    case ne: False
    with Cons.prems have l: "\<not> P (last cs)" by simp
    from Cons.IH ne l have ih: "[] \<notin> set (tl (splitRuns P cs))" by simp
    obtain x xs where sp: "splitRuns P cs = x # xs"
      by (cases "splitRuns P cs") auto
    from ih sp have ixs: "[] \<notin> set xs" by simp
    show ?thesis
    proof (cases "P c")
      case False
      then have "splitRuns P (c # cs) = (c # x) # xs" by (simp add: splitRuns_Cons sp)
      with ixs show ?thesis by simp
    next
      case True
      show ?thesis
      proof (cases "P (hd cs)")
        case pd: True
        then have "splitRuns P (c # cs) = x # xs"
          using True ne sp by (simp add: splitRuns_Cons)
        with ixs show ?thesis by simp
      next
        case npd: False
        then have "splitRuns P (c # cs) = [] # x # xs"
          using True sp by (simp add: splitRuns_Cons)
        moreover have "x \<noteq> []"
          using splitRuns_head [of P cs] sp ne npd by (cases cs) simp_all
        ultimately show ?thesis using ixs by simp
      qed
    qed
  qed
qed

lemma splitRuns_no_empty:
  assumes "s \<noteq> []" and "\<not> P (hd s)" and "\<not> P (last s)"
  shows "filter (\<lambda>p. p \<noteq> []) (splitRuns P s) = splitRuns P s"
proof -
  obtain x xs where sp: "splitRuns P s = x # xs"
    by (cases "splitRuns P s") auto
  have "x \<noteq> []"
    using splitRuns_head [of P s] sp assms(1,2) by (cases s) simp_all
  moreover have "[] \<notin> set xs"
    using splitRuns_no_empty_tail [of s P] assms(1,3) sp by simp
  ultimately show ?thesis
    by (auto simp: sp filter_id_conv)
qed

lemma tokens_all_delimiters:
  assumes "list_all P s"
  shows "tokens P s = []"
proof -
  from assms have d: "dropWhile P s = []" by (simp add: list_all_iff)
  show ?thesis by (subst tokens.simps) (simp only: d list.case)
qed

lemma tokens_append_delimiters:
  "list_all P ws \<Longrightarrow> tokens P (s @ ws) = tokens P s"
proof (induction P s rule: tokens.induct)
  case (1 P s)
  show ?case
  proof (cases "dropWhile P s")
    case Nil
    then have "list_all P (s @ ws)"
      using "1.prems" by (auto simp: list_all_iff)
    moreover from Nil have "list_all P s" by (simp add: list_all_iff)
    ultimately show ?thesis by (simp only: tokens_all_delimiters)
  next
    case (Cons c cs)
    then have "dropWhile P s \<noteq> []" by simp
    then have ex: "\<not> (\<forall>x\<in>set s. P x)" by simp
    then obtain y where "y \<in> set s" "\<not> P y" by blast
    then have "dropWhile P (s @ ws) = dropWhile P s @ ws"
      by (rule dropWhile_append1)
    then have dw: "dropWhile P (s @ ws) = c # (cs @ ws)"
      using Cons by simp
    have tw: "takeWhile (\<lambda>x. \<not> P x) (cs @ ws) = takeWhile (\<lambda>x. \<not> P x) cs"
    proof (cases "\<forall>x\<in>set cs. \<not> P x")
      case True
      have a: "takeWhile (\<lambda>x. \<not> P x) ws = []"
        using "1.prems" by (cases ws) simp_all
      from True have b: "takeWhile (\<lambda>x. \<not> P x) cs = cs"
        by simp
      from True have "takeWhile (\<lambda>x. \<not> P x) (cs @ ws) = cs @ takeWhile (\<lambda>x. \<not> P x) ws"
        by (intro takeWhile_append2) simp
      then show ?thesis by (simp only: a b append_Nil2)
    next
      case False
      then obtain y where "y \<in> set cs" "\<not> \<not> P y" by blast
      then show ?thesis by (rule takeWhile_append1)
    qed
    have rest: "tokens P (dropWhile (\<lambda>x. \<not> P x) (cs @ ws)) = tokens P (dropWhile (\<lambda>x. \<not> P x) cs)"
    proof (cases "\<forall>x\<in>set cs. \<not> P x")
      case True
      have "dropWhile (\<lambda>x. \<not> P x) ws = ws"
        using "1.prems" by (cases ws) auto
      with True have d1: "dropWhile (\<lambda>x. \<not> P x) (cs @ ws) = ws"
        by (simp add: dropWhile_append)
      from True have d2: "dropWhile (\<lambda>x. \<not> P x) cs = []" by simp
      show ?thesis
        by (simp only: d1 d2 tokens_Nil tokens_all_delimiters [OF "1.prems"])
    next
      case False
      then obtain y where "y \<in> set cs" "\<not> \<not> P y" by blast
      then have "dropWhile (\<lambda>x. \<not> P x) (cs @ ws) = dropWhile (\<lambda>x. \<not> P x) cs @ ws"
        by (rule dropWhile_append1)
      with "1.IH" [OF Cons "1.prems"] show ?thesis by simp
    qed
    show ?thesis
      by (simp add: tokens.simps [of P "s @ ws"] tokens.simps [of P s] dw Cons tw rest)
  qed
qed


lemma tokens_trimStart: "tokens isWhiteSpace (trimStart s) = tokens isWhiteSpace s"
  by (simp only: trimStart_def tokens.simps [of isWhiteSpace "dropWhile isWhiteSpace s"]
        tokens.simps [of isWhiteSpace s] dropWhile_idem)

lemma tokens_trimEnd: "tokens isWhiteSpace (trimEnd s) = tokens isWhiteSpace s"
proof -
  have "rev s = takeWhile isWhiteSpace (rev s) @ dropWhile isWhiteSpace (rev s)" by simp
  then have "s = trimEnd s @ rev (takeWhile isWhiteSpace (rev s))"
    by (metis rev_append rev_rev_ident trimEnd_def)
  moreover have "list_all isWhiteSpace (rev (takeWhile isWhiteSpace (rev s)))"
    by (auto simp: list_all_iff dest: set_takeWhileD)
  ultimately show ?thesis
    using tokens_append_delimiters [of isWhiteSpace "rev (takeWhile isWhiteSpace (rev s))" "trimEnd s"]
    by simp
qed

lemma tokens_trim: "tokens isWhiteSpace (trim s) = tokens isWhiteSpace s"
  by (simp add: trim_parts tokens_trimEnd tokens_trimStart)

lemma trim_ends:
  assumes "trim s \<noteq> []"
  shows "\<not> isWhiteSpace (hd (trim s)) \<and> \<not> isWhiteSpace (last (trim s))"
proof -
  let ?y = "trimStart s"
  from assms have te: "trimEnd ?y \<noteq> []" by (simp add: trim_parts)
  then have nb: "\<not> blank ?y" by (simp add: trimEnd_Nil_iff)
  then obtain c cs where y: "?y = c # cs" by (cases ?y) (auto simp: blank_def)
  have "\<not> isWhiteSpace (hd ?y)"
    using y hd_dropWhile [of isWhiteSpace s] by (simp add: trimStart_def)
  with y have c: "\<not> isWhiteSpace c" by simp
  have "trimEnd ?y = c # trimEnd cs"
    using nb y by (simp add: trimEnd_Cons)
  with c have h: "\<not> isWhiteSpace (hd (trim s))" by (simp add: trim_parts)
  have "dropWhile isWhiteSpace (rev ?y) \<noteq> []"
    using te by (simp add: trimEnd_def)
  then have "\<not> isWhiteSpace (hd (dropWhile isWhiteSpace (rev ?y)))"
    by (rule hd_dropWhile)
  moreover have "last (trim s) = hd (dropWhile isWhiteSpace (rev ?y))"
    using te by (simp add: trim_parts trimEnd_def last_rev)
  ultimately show ?thesis using h by simp
qed

lemma words_count:
  "(if trim t \<noteq> [] then length (splitRuns isWhiteSpace (trim t)) else 0) =
   length (tokens isWhiteSpace t)"
proof (cases "trim t = []")
  case True
  then have "list_all isWhiteSpace t" by (simp add: trim_Nil_iff blank_def)
  with True show ?thesis by (simp add: tokens_all_delimiters)
next
  case False
  from trim_ends [OF False] False
  have "filter (\<lambda>p. p \<noteq> []) (splitRuns isWhiteSpace (trim t)) = splitRuns isWhiteSpace (trim t)"
    by (intro splitRuns_no_empty) auto
  then have "splitRuns isWhiteSpace (trim t) = tokens isWhiteSpace (trim t)"
    using splitRuns_tokens [of isWhiteSpace "trim t"] by simp
  with False show ?thesis by (simp add: tokens_trim)
qed

lemma splitRuns_no_separator: "list_all (\<lambda>c. \<not> P c) s \<Longrightarrow> splitRuns P s = [s]"
  by (induction s) (simp_all add: splitRuns_Cons)

lemma sentences_count:
  "(if trim t \<noteq> []
    then length (filter (\<lambda>s. length (trim s) > 0) (splitRuns isTerminator t)) else 0) =
   length (filter (\<lambda>s. \<not> blank s) (splitRuns isTerminator t))"
proof -
  have f: "filter (\<lambda>s. length (trim s) > 0) xs = filter (\<lambda>s. \<not> blank s) xs" for xs
    by (simp add: trim_Nil_iff)
  show ?thesis
  proof (cases "trim t = []")
    case True
    then have b: "blank t" by (simp add: trim_Nil_iff)
    have "\<not> isTerminator c" if "isWhiteSpace c" for c
      using that by (auto simp: isTerminator_def isWhiteSpace_def)
    with b have "list_all (\<lambda>c. \<not> isTerminator c) t"
      by (simp add: blank_def list_all_iff)
    then have "splitRuns isTerminator t = [t]" by (rule splitRuns_no_separator)
    then have "filter (\<lambda>s. \<not> blank s) (splitRuns isTerminator t) = []"
      using b by simp
    then show ?thesis using True by simp
  next
    case False
    then show ?thesis by (simp only: f if_True not_False_eq_True)
  qed
qed


text \<open>
  C8. Claimed: the sentences are the non-empty segments between the runs of \<open>.\<close>, \<open>!\<close> and
  \<open>?\<close>. The code counts a segment only if it has a character that is not white space. What
  holds, for every conversion \<open>toText\<close> of the rendering engine and every content that is not
  empty: \<open>characters\<close> is the length of the converted text, \<open>words\<close> is the number of its
  tokens delimited by white space, which is 0 when the text is blank, and \<open>sentences\<close> is the
  number of the segments between the runs of \<open>.\<close>, \<open>!\<close> and \<open>?\<close> that are not blank, which
  is 0 when the text is blank. For the empty content all three are 0. With the engine
  removing the tags the same holds for every content, and \<open><p>Hello world.</p>\<close> gives 2
  words, 12 characters and 1 sentence.
\<close>

theorem note_stats:
  "getNoteStats toText c =
     (if c = [] then \<lparr>words = 0, characters = 0, sentences = 0\<rparr>
      else \<lparr>words = length (tokens isWhiteSpace (toText c)),
            characters = length (toText c),
            sentences = length (filter (\<lambda>s. \<not> blank s) (splitRuns isTerminator (toText c)))\<rparr>) \<and>
   getNoteStats textContent c =
     \<lparr>words = length (tokens isWhiteSpace (textContent c)),
      characters = length (textContent c),
      sentences = length (filter (\<lambda>s. \<not> blank s) (splitRuns isTerminator (textContent c)))\<rparr> \<and>
   getNoteStats textContent ''<p>Hello world.</p>'' = \<lparr>words = 2, characters = 12, sentences = 1\<rparr>"
proof -
  have g: "getNoteStats f c =
     (if c = [] then \<lparr>words = 0, characters = 0, sentences = 0\<rparr>
      else \<lparr>words = length (tokens isWhiteSpace (f c)),
            characters = length (f c),
            sentences = length (filter (\<lambda>s. \<not> blank s) (splitRuns isTerminator (f c)))\<rparr>)" for f
    by (simp only: getNoteStats_def Let_def words_count sentences_count)
  have e: "textContent [] = []" by (simp add: textContent_def)
  have z: "\<lparr>words = length (tokens isWhiteSpace []), characters = length ([] :: string),
            sentences = length (filter (\<lambda>s. \<not> blank s) (splitRuns isTerminator []))\<rparr> =
           \<lparr>words = 0, characters = 0, sentences = 0\<rparr>"
    by (simp add: blank_def)
  have m: "getNoteStats textContent c =
     \<lparr>words = length (tokens isWhiteSpace (textContent c)),
      characters = length (textContent c),
      sentences = length (filter (\<lambda>s. \<not> blank s) (splitRuns isTerminator (textContent c)))\<rparr>"
  proof (cases "c = []")
    case True
    have "getNoteStats textContent [] = \<lparr>words = 0, characters = 0, sentences = 0\<rparr>"
      by (simp add: getNoteStats_def)
    with True show ?thesis by (simp only: e z)
  next
    case False
    then show ?thesis by (simp only: g [of textContent] if_False)
  qed
  have x: "getNoteStats textContent ''<p>Hello world.</p>'' = \<lparr>words = 2, characters = 12, sentences = 1\<rparr>"
    by code_simp
  from g [of toText] m x show ?thesis by (intro conjI)
qed

theorem note_stats_witness:
  "getNoteStats textContent ''<p>One. Two! </p>'' = \<lparr>words = 2, characters = 10, sentences = 2\<rparr>"
proof -
  have t: "textContent ''<p>One. Two! </p>'' = ''One. Two! ''" by code_simp
  have w: "length (tokens isWhiteSpace ''One. Two! '') = 2" by code_simp
  have s: "length (filter (\<lambda>s. \<not> blank s) (splitRuns isTerminator ''One. Two! '')) = 2" by code_simp
  from note_stats [of textContent "''<p>One. Two! </p>''"]
  have "getNoteStats textContent ''<p>One. Two! </p>'' =
     \<lparr>words = length (tokens isWhiteSpace (textContent ''<p>One. Two! </p>'')),
      characters = length (textContent ''<p>One. Two! </p>''),
      sentences = length (filter (\<lambda>s. \<not> blank s) (splitRuns isTerminator (textContent ''<p>One. Two! </p>'')))\<rparr>"
    by blast
  then show ?thesis by (simp only: t w s) simp
qed

theorem stats_claim_counterexample:
  "textContent ''<p>Hi. </p>'' = ''Hi. '' \<and>
   trim (textContent ''<p>Hi. </p>'') \<noteq> [] \<and>
   filter (\<lambda>s. s \<noteq> []) (splitRuns isTerminator (textContent ''<p>Hi. </p>'')) = [''Hi'', '' ''] \<and>
   sentences (getNoteStats textContent ''<p>Hi. </p>'') = 1"
  by code_simp

end
